theory Spec2Isabelle
  imports Main "HOL-Library.AList"
begin

section \<open>Data model\<close>

text \<open>
  The reducer of \<^verbatim>\<open>reducer.py\<close> raises no exception of its own; what can fail are the
  subscripts and conversions it performs. Each of them is a value of \<open>error\<close>, and a
  function that can fail returns \<open>error + 'a\<close>.
\<close>

datatype error = KeyError | IndexError | ValueError | AttributeError | TypeError

text \<open>
  Python strings are modelled as \<open>string\<close> holding the UTF-8 bytes of the text. The
  reducer only compares strings, concatenates them, tests containment and reads the first
  character to compare it with an ASCII quote; all of these agree on code points and on
  UTF-8 bytes.
\<close>

text \<open>\<^verbatim>\<open>BIN_Meaning\<close> of \<^verbatim>\<open>bindb.py\<close>: one lexical meaning of a word form.\<close>

record BIN_Meaning =
  stofn :: string
  utg :: int
  ordfl :: string
  fl :: string
  ordmynd :: string
  beyging :: string

text \<open>
  A token as the reducer reads it: \<open>t1\<close> is the original text, \<open>lower\<close> the
  lowercased text and \<open>t2\<close> the ordered collection of candidate meanings.
\<close>

record token =
  t1 :: string
  lower :: string
  t2 :: "BIN_Meaning list"

text \<open>
  The terminal class is not part of the sources at hand. A terminal is the record of
  what the reducer observes of it: its name, the first part of the name (the primary
  category), the ordinal list of variants, the case signature \<open>verb_cases\<close> and the
  boolean properties the heuristics test.
\<close>

record terminal =
  name :: string
  first :: string
  variants :: "string list"
  verb_cases :: string
  is_singular :: bool
  is_plural :: bool
  is_abbrev :: bool
  is_sagnb :: bool
  is_lh :: bool
  is_mm :: bool
  is_vh :: bool
  is_subj :: bool
  is_nh :: bool

text \<open>A production, as far as the reducer reads it: its priority (lower is preferred).\<close>

record production =
  priority :: int

text \<open>
  A forest node. Python's \<^verbatim>\<open>None\<close> stands both for the epsilon node and for an
  absent forest; it is the constructor \<open>Epsilon\<close>. A token node carries its span, its
  terminal and its token; a nonterminal node carries its nonterminal, whether it is
  completed, its span and its families, each a production with the ordered list of
  children. A subderivation shared by several parents occurs once under each of them.
\<close>

datatype node =
    Epsilon
  | Token nat nat terminal token
  | Nonterminal string bool nat nat "(production \<times> node list) list"

text \<open>
  The tables the reducer consults and does not own: the grammar's score adjustments
  (\<^verbatim>\<open>grammar._nt_scores\<close>), the preference table (\<^verbatim>\<open>Preferences.get\<close>), the
  verbs that take no argument (\<^verbatim>\<open>VerbObjects.VERBS[0]\<close>) and the verb-case scores
  (\<^verbatim>\<open>VerbObjects.SCORES\<close>). They are parameters of the model.
\<close>

record config =
  nt_scores :: "string \<rightharpoonup> int"
  Preferences_get :: "string \<rightharpoonup> (string list \<times> string list \<times> int) list"
  VerbObjects_VERBS0 :: "string set"
  VerbObjects_SCORES :: "string \<rightharpoonup> int"

text \<open>
  \<open>scores\<close> maps a position to the dictionary from terminal to score; the inner
  dictionary keeps the order in which its keys were inserted.
\<close>

type_synonym scores = "nat \<rightharpoonup> (terminal \<times> int) list"

section \<open>The forest reducer\<close>

text \<open>\<^verbatim>\<open>ReductionInfo\<close>: what is accumulated while the families of one node are visited.\<close>

record ReductionInfo =
  ri_sc :: "(nat \<times> int) list"
  ri_nt :: "string option"
  ri_highest_prio :: "int option"
  ri_use_prio :: bool
  ri_highest_ix :: "nat set option"

definition ReductionInfo_init :: "string \<Rightarrow> bool \<Rightarrow> ReductionInfo" where
  "ReductionInfo_init nonterminal is_completed =
     \<lparr> ri_sc = [],
       ri_nt = (if is_completed then Some nonterminal else None),
       ri_highest_prio = None,
       ri_use_prio = False,
       ri_highest_ix = None \<rparr>"

text \<open>\<^verbatim>\<open>self.sc[ix] += sc\<close> on a \<^verbatim>\<open>defaultdict(int)\<close>.\<close>

definition add_child_score :: "nat \<Rightarrow> int \<Rightarrow> ReductionInfo \<Rightarrow> ReductionInfo" where
  "add_child_score ix v r =
     r\<lparr> ri_sc := AList.update ix ((case map_of (ri_sc r) ix of None \<Rightarrow> 0 | Some c \<Rightarrow> c) + v) (ri_sc r) \<rparr>"

definition add_child_production :: "nat \<Rightarrow> production \<Rightarrow> ReductionInfo \<Rightarrow> error + ReductionInfo" where
  "add_child_production ix p r =
     (if ri_nt r = None then Inr r
      else
        let prio = priority p;
            r1 = (if ri_highest_prio r \<noteq> None \<and> Some prio \<noteq> ri_highest_prio r
                  then r\<lparr> ri_use_prio := True \<rparr> else r)
        in (case ri_highest_prio r1 of
              None \<Rightarrow> Inr (r1\<lparr> ri_highest_prio := Some prio, ri_highest_ix := Some {ix} \<rparr>)
            | Some h \<Rightarrow>
                if prio < h
                then Inr (r1\<lparr> ri_highest_prio := Some prio, ri_highest_ix := Some {ix} \<rparr>)
                else if prio = h
                then (case ri_highest_ix r1 of
                        None \<Rightarrow> Inl AttributeError
                      | Some hs \<Rightarrow> Inr (r1\<lparr> ri_highest_ix := Some (insert ix hs) \<rparr>))
                else Inr r1))"

text \<open>
  \<^verbatim>\<open>sorted(csc.items(), key = lambda x: x[1], reverse = True)\<close>: a stable sort by
  decreasing score, so that items of equal score keep their order.
\<close>

definition sorted_desc :: "(nat \<times> int) list \<Rightarrow> (nat \<times> int) list" where
  "sorted_desc items = sort_key (\<lambda>x. - snd x) items"

text \<open>
  \<^verbatim>\<open>_process_results\<close>. The result is the score together with the index handed to
  \<^verbatim>\<open>node.reduce_to\<close>, or \<open>None\<close> when \<^verbatim>\<open>reduce_to\<close> is not called.
\<close>

definition process_results :: "config \<Rightarrow> ReductionInfo \<Rightarrow> error + (nat option \<times> int)" where
  "process_results cfg results =
     (case (if ri_use_prio results
            then (case ri_highest_ix results of
                    None \<Rightarrow> Inl TypeError
                  | Some hs \<Rightarrow> Inr (filter (\<lambda>(ix, v). ix \<in> hs) (ri_sc results)))
            else Inr (ri_sc results)) of
        Inl err \<Rightarrow> Inl err
      | Inr csc \<Rightarrow>
          (case (if length csc = 1 \<and> \<not> ri_use_prio results
                 then (case csc of (ix, v) # _ \<Rightarrow> Inr (None, v) | [] \<Rightarrow> Inl ValueError)
                 else (case sorted_desc csc of
                         [] \<Rightarrow> Inl IndexError
                       | (ix, v) # _ \<Rightarrow> Inr (Some ix, v))) of
             Inl err \<Rightarrow> Inl err
           | Inr (red, v) \<Rightarrow>
               Inr (red,
                    (case ri_nt results of
                       None \<Rightarrow> v
                     | Some n \<Rightarrow> v + (case nt_scores cfg n of None \<Rightarrow> 0 | Some a \<Rightarrow> a)))))"

text \<open>
  Modelled from the spec: \<^verbatim>\<open>node.reduce_to\<close> of the forest node class, which is not
  among the sources. It discards every family except the selected one.
\<close>

definition reduce_to :: "nat \<Rightarrow> (production \<times> node list) list \<Rightarrow> error + (production \<times> node list) list" where
  "reduce_to ix fams = (if ix < length fams then Inr [fams ! ix] else Inl IndexError)"

text \<open>The hooks of \<^verbatim>\<open>ParseForestReducer\<close>.\<close>

definition visit_epsilon :: int where
  "visit_epsilon = 0"

definition visit_token :: "scores \<Rightarrow> nat \<Rightarrow> terminal \<Rightarrow> error + int" where
  "visit_token scores start t =
     (case scores start of
        None \<Rightarrow> Inl KeyError
      | Some d \<Rightarrow> (case map_of d t of None \<Rightarrow> Inl KeyError | Some v \<Rightarrow> Inr v))"

definition visit_nonterminal :: "string \<Rightarrow> bool \<Rightarrow> ReductionInfo" where
  "visit_nonterminal nonterminal is_completed = ReductionInfo_init nonterminal is_completed"

definition visit_family :: "nat \<Rightarrow> production \<Rightarrow> ReductionInfo \<Rightarrow> error + ReductionInfo" where
  "visit_family ix p results = add_child_production ix p results"

definition add_result :: "nat \<Rightarrow> int \<Rightarrow> ReductionInfo \<Rightarrow> ReductionInfo" where
  "add_result ix v results = add_child_score ix v results"

text \<open>
  Modelled from the spec: the walk of \<^verbatim>\<open>ParseForestNavigator.go\<close> (module
  \<^verbatim>\<open>fastparser\<close>, not among the sources), here with the hooks of the reducer. The
  families of a node are visited in their order; for each family the family hook runs,
  then each child is walked and its result added to the family; once all families are
  visited the results are processed. The walk returns the node as the mutation leaves
  it, the node's score and the number of calls of \<^verbatim>\<open>reduce_to\<close>.
\<close>

fun reduce_node :: "config \<Rightarrow> scores \<Rightarrow> node \<Rightarrow> error + (node \<times> int \<times> nat)"
  and reduce_children ::
    "config \<Rightarrow> scores \<Rightarrow> nat \<Rightarrow> node list \<Rightarrow> ReductionInfo \<Rightarrow> error + (node list \<times> ReductionInfo \<times> nat)"
  and reduce_families ::
    "config \<Rightarrow> scores \<Rightarrow> nat \<Rightarrow> (production \<times> node list) list \<Rightarrow> ReductionInfo
       \<Rightarrow> error + ((production \<times> node list) list \<times> ReductionInfo \<times> nat)"
where
  "reduce_node cfg scores Epsilon = Inr (Epsilon, visit_epsilon, 0)"
| "reduce_node cfg scores (Token s e t tok) =
     (case visit_token scores s t of
        Inl err \<Rightarrow> Inl err
      | Inr v \<Rightarrow> Inr (Token s e t tok, v, 0))"
| "reduce_node cfg scores (Nonterminal n c s e fams) =
     (case reduce_families cfg scores 0 fams (visit_nonterminal n c) of
        Inl err \<Rightarrow> Inl err
      | Inr (fams', results, k) \<Rightarrow>
          (case process_results cfg results of
             Inl err \<Rightarrow> Inl err
           | Inr (None, v) \<Rightarrow> Inr (Nonterminal n c s e fams', v, k)
           | Inr (Some ix, v) \<Rightarrow>
               (case reduce_to ix fams' of
                  Inl err \<Rightarrow> Inl err
                | Inr fams'' \<Rightarrow> Inr (Nonterminal n c s e fams'', v, Suc k))))"
| "reduce_children cfg scores ix [] results = Inr ([], results, 0)"
| "reduce_children cfg scores ix (w # ws) results =
     (case reduce_node cfg scores w of
        Inl err \<Rightarrow> Inl err
      | Inr (w', v, k) \<Rightarrow>
          (case reduce_children cfg scores ix ws (add_result ix v results) of
             Inl err \<Rightarrow> Inl err
           | Inr (ws', results', k') \<Rightarrow> Inr (w' # ws', results', k + k')))"
| "reduce_families cfg scores ix [] results = Inr ([], results, 0)"
| "reduce_families cfg scores ix ((p, ws) # fs) results =
     (case visit_family ix p results of
        Inl err \<Rightarrow> Inl err
      | Inr r1 \<Rightarrow>
          (case reduce_children cfg scores ix ws r1 of
             Inl err \<Rightarrow> Inl err
           | Inr (ws', r2, k) \<Rightarrow>
               (case reduce_families cfg scores (Suc ix) fs r2 of
                  Inl err \<Rightarrow> Inl err
                | Inr (fs', r3, k') \<Rightarrow> Inr ((p, ws') # fs', r3, k + k'))))"

text \<open>\<^verbatim>\<open>_reduce\<close>: the walk from the root; the caller keeps the score.\<close>

definition reduce :: "config \<Rightarrow> node \<Rightarrow> scores \<Rightarrow> error + (node \<times> int \<times> nat)" where
  "reduce cfg w scores = reduce_node cfg scores w"

section \<open>The option finder\<close>

text \<open>
  \<open>finals\<close> is the \<^verbatim>\<open>defaultdict(set)\<close> from position to the set of terminals seen
  there, \<open>tokens\<close> the dictionary from position to token. A Python set is iterated in
  an order the language leaves open; the model keeps each set as the list of its elements
  in the order of their insertion and iterates in that order.
\<close>

type_synonym finals = "nat \<Rightarrow> terminal list"

type_synonym tokens = "nat \<rightharpoonup> token"

definition set_add :: "'a \<Rightarrow> 'a list \<Rightarrow> 'a list" where
  "set_add x xs = (if x \<in> set xs then xs else xs @ [x])"

text \<open>\<^verbatim>\<open>OptionFinder._visit_token\<close>.\<close>

definition OptionFinder_visit_token ::
    "nat \<Rightarrow> terminal \<Rightarrow> token \<Rightarrow> finals \<times> tokens \<Rightarrow> finals \<times> tokens" where
  "OptionFinder_visit_token start t tok ft =
     (case ft of (finals, tokens) \<Rightarrow>
        (finals(start := set_add t (finals start)), tokens(start \<mapsto> tok)))"

text \<open>
  Modelled from the spec: the walk of \<^verbatim>\<open>ParseForestNavigator.go\<close> with the hooks of
  \<^verbatim>\<open>OptionFinder\<close>, which acts at token nodes only. The nodes are walked in the same
  order as by the reducer.
\<close>

fun find_node :: "node \<Rightarrow> finals \<times> tokens \<Rightarrow> finals \<times> tokens"
  and find_children :: "node list \<Rightarrow> finals \<times> tokens \<Rightarrow> finals \<times> tokens"
  and find_families :: "(production \<times> node list) list \<Rightarrow> finals \<times> tokens \<Rightarrow> finals \<times> tokens"
where
  "find_node Epsilon ft = ft"
| "find_node (Token s e t tok) ft = OptionFinder_visit_token s t tok ft"
| "find_node (Nonterminal n c s e fams) ft = find_families fams ft"
| "find_children [] ft = ft"
| "find_children (w # ws) ft = find_children ws (find_node w ft)"
| "find_families [] ft = ft"
| "find_families ((p, ws) # fs) ft = find_families fs (find_children ws ft)"

text \<open>\<^verbatim>\<open>_find_options\<close>.\<close>

definition find_options :: "node \<Rightarrow> finals \<times> tokens \<Rightarrow> finals \<times> tokens" where
  "find_options w ft = find_node w ft"

section \<open>The terminal scorer\<close>

definition rbind :: "error + 'a \<Rightarrow> ('a \<Rightarrow> error + 'b) \<Rightarrow> error + 'b" where
  "rbind m f = (case m of Inl err \<Rightarrow> Inl err | Inr x \<Rightarrow> f x)"

text \<open>The category names, variants and words the heuristics compare with, in UTF-8.\<close>

definition cat_tol :: string where
  "cat_tol = [CHR ''t'', CHR 0xC3, CHR 0xB6, CHR ''l'']"

definition cat_sernafn :: string where
  "cat_sernafn = [CHR ''s'', CHR 0xC3, CHR 0xA9, CHR ''r'', CHR ''n'', CHR ''a'', CHR ''f'', CHR ''n'']"

definition var_thgf :: string where
  "var_thgf = [CHR 0xC3, CHR 0xBE, CHR ''g'', CHR ''f'']"

definition var_thf :: string where
  "var_thf = [CHR 0xC3, CHR 0xBE, CHR ''f'']"

definition txt_vid :: string where
  "txt_vid = [CHR ''v'', CHR ''i'', CHR 0xC3, CHR 0xB0]"

text \<open>Python's \<^verbatim>\<open>sub in s\<close> on strings.\<close>

fun contains :: "string \<Rightarrow> string \<Rightarrow> bool" where
  "contains sub [] = (sub = [])"
| "contains sub (c # cs) = (take (length sub) (c # cs) = sub \<or> contains sub cs)"

text \<open>
  Python's \<^verbatim>\<open>int\<close> on a string of decimal digits; the empty string and any other
  character raise \<^verbatim>\<open>ValueError\<close>.
\<close>

definition is_digit :: "char \<Rightarrow> bool" where
  "is_digit c = (48 \<le> (of_char c :: nat) \<and> (of_char c :: nat) \<le> 57)"

definition py_int :: "string \<Rightarrow> error + int" where
  "py_int s =
     (if s = [] \<or> \<not> list_all is_digit s then Inl ValueError
      else Inr (foldl (\<lambda>a c. 10 * a + (int (of_char c) - 48)) 0 s))"

text \<open>
  Modelled from the spec: the queries of the terminal class by flag name and by ordinal
  position; the position past the last variant raises \<^verbatim>\<open>IndexError\<close>.
\<close>

definition has_variant :: "string \<Rightarrow> terminal \<Rightarrow> bool" where
  "has_variant v t = (v \<in> set (variants t))"

definition variant :: "terminal \<Rightarrow> nat \<Rightarrow> error + string" where
  "variant t ix = (if ix < length (variants t) then Inr (variants t ! ix) else Inl IndexError)"

text \<open>\<^verbatim>\<open>t.name[0] in "\"'"\<close>: the terminal is a literal.\<close>

definition is_literal :: "terminal \<Rightarrow> error + bool" where
  "is_literal t =
     (case name t of [] \<Rightarrow> Inl IndexError | c # _ \<Rightarrow> Inr (c = CHR 0x22 \<or> c = CHR 0x27))"

text \<open>\<^verbatim>\<open>scores[i][t] += d\<close>.\<close>

definition sc_add :: "nat \<Rightarrow> terminal \<Rightarrow> int \<Rightarrow> scores \<Rightarrow> error + scores" where
  "sc_add i t d scores =
     (case scores i of
        None \<Rightarrow> Inl KeyError
      | Some sc \<Rightarrow>
          (case map_of sc t of
             None \<Rightarrow> Inl KeyError
           | Some v \<Rightarrow> Inr (scores(i \<mapsto> AList.update t (v + d) sc))))"

text \<open>Reading a \<^verbatim>\<open>defaultdict(int)\<close>.\<close>

definition dd_get :: "(terminal \<times> int) list \<Rightarrow> terminal \<Rightarrow> int" where
  "dd_get d k = (case map_of d k of None \<Rightarrow> 0 | Some v \<Rightarrow> v)"

subsection \<open>Preferences\<close>

text \<open>The loop over \<^verbatim>\<open>bt\<close>, for one triple and one \<^verbatim>\<open>wt\<close>.\<close>

fun pref_bt_loop ::
    "terminal \<Rightarrow> string list \<Rightarrow> int \<Rightarrow> terminal list
       \<Rightarrow> (terminal \<times> int) list \<times> (terminal \<times> int) list
       \<Rightarrow> error + ((terminal \<times> int) list \<times> (terminal \<times> int) list)" where
  "pref_bt_loop wt better factor [] adjs = Inr adjs"
| "pref_bt_loop wt better factor (bt # bts) (adj_worse, adj_better) =
     (if wt \<noteq> bt \<and> first bt \<in> set better
      then (case is_literal bt of
              Inl err \<Rightarrow> Inl err
            | Inr lit \<Rightarrow>
                let adj_w = - 2 * factor;
                    adj_b = (if lit then 6 * factor else 4 * factor)
                in pref_bt_loop wt better factor bts
                     (AList.update wt (min (dd_get adj_worse wt) adj_w) adj_worse,
                      AList.update bt (max (dd_get adj_better bt) adj_b) adj_better))
      else pref_bt_loop wt better factor bts (adj_worse, adj_better))"

text \<open>The loop over \<^verbatim>\<open>wt\<close>, for one triple.\<close>

fun pref_wt_loop ::
    "string list \<Rightarrow> string list \<Rightarrow> int \<Rightarrow> terminal list \<Rightarrow> terminal list
       \<Rightarrow> (terminal \<times> int) list \<times> (terminal \<times> int) list
       \<Rightarrow> error + ((terminal \<times> int) list \<times> (terminal \<times> int) list)" where
  "pref_wt_loop worse better factor s [] adjs = Inr adjs"
| "pref_wt_loop worse better factor s (wt # wts) adjs =
     (if first wt \<in> set worse
      then rbind (pref_bt_loop wt better factor s adjs) (pref_wt_loop worse better factor s wts)
      else pref_wt_loop worse better factor s wts adjs)"

text \<open>The loop over the triples.\<close>

fun pref_loop ::
    "(string list \<times> string list \<times> int) list \<Rightarrow> terminal list
       \<Rightarrow> (terminal \<times> int) list \<times> (terminal \<times> int) list
       \<Rightarrow> error + ((terminal \<times> int) list \<times> (terminal \<times> int) list)" where
  "pref_loop [] s adjs = Inr adjs"
| "pref_loop ((worse, better, factor) # prefs) s adjs =
     rbind (pref_wt_loop worse better factor s s adjs) (pref_loop prefs s)"

text \<open>\<^verbatim>\<open>for wt, adj in adj.items(): sc[wt] += adj\<close>.\<close>

fun add_adjustments :: "nat \<Rightarrow> (terminal \<times> int) list \<Rightarrow> scores \<Rightarrow> error + scores" where
  "add_adjustments i [] scores = Inr scores"
| "add_adjustments i ((t, adj) # items) scores =
     rbind (sc_add i t adj scores) (add_adjustments i items)"

text \<open>The block guarded by \<^verbatim>\<open>if prefs:\<close>.\<close>

definition apply_preferences ::
    "(string list \<times> string list \<times> int) list \<Rightarrow> nat \<Rightarrow> terminal list \<Rightarrow> scores \<Rightarrow> error + scores" where
  "apply_preferences prefs i s scores =
     rbind (pref_loop prefs s ([], []))
       (\<lambda>(adj_worse, adj_better).
          rbind (add_adjustments i adj_worse scores) (add_adjustments i adj_better))"

subsection \<open>Heuristics\<close>

text \<open>Each definition is one branch of the chain on \<^verbatim>\<open>tfirst\<close>, applied to one terminal.\<close>

definition heur_adverb :: "nat \<Rightarrow> terminal \<Rightarrow> scores \<Rightarrow> error + scores" where
  "heur_adverb i t scores = sc_add i t (- 1) scores"

definition heur_noun :: "nat \<Rightarrow> terminal \<Rightarrow> scores \<Rightarrow> error + scores" where
  "heur_noun i t scores =
     (if is_singular t then sc_add i t 1 scores
      else if is_abbrev t then sc_add i t (- 1) scores
      else Inr scores)"

definition heur_preposition :: "string \<Rightarrow> nat \<Rightarrow> terminal \<Rightarrow> scores \<Rightarrow> error + scores" where
  "heur_preposition txt i t scores =
     (if has_variant ''nf'' t then sc_add i t (- 5) scores
      else if txt = txt_vid \<and> has_variant var_thgf t then sc_add i t 1 scores
      else if txt = ''sem'' \<and> has_variant var_thf t then sc_add i t (- 6) scores
      else sc_add i t 2 scores)"

text \<open>
  \<^verbatim>\<open>all(m.stofn not in VerbObjects.VERBS[0] and "MM" not in m.beyging
  for m in tokens[i].t2 if m.ordfl == "so")\<close>.
\<close>

definition no_zero_argument_meaning :: "config \<Rightarrow> token \<Rightarrow> bool" where
  "no_zero_argument_meaning cfg tok =
     list_all (\<lambda>m. stofn m \<notin> VerbObjects_VERBS0 cfg \<and> \<not> contains ''MM'' (beyging m))
       (filter (\<lambda>m. ordfl m = ''so'') (t2 tok))"

text \<open>The loop that sets \<^verbatim>\<open>adjmax\<close>: it stops at the first meaning that has a score.\<close>

fun adjmax_loop :: "config \<Rightarrow> terminal \<Rightarrow> BIN_Meaning list \<Rightarrow> int" where
  "adjmax_loop cfg t [] = 0"
| "adjmax_loop cfg t (m # ms) =
     (if ordfl m = ''so''
      then (case VerbObjects_SCORES cfg (stofn m @ verb_cases t) of
              Some score \<Rightarrow> score
            | None \<Rightarrow> adjmax_loop cfg t ms)
      else adjmax_loop cfg t ms)"

definition heur_verb_arguments :: "config \<Rightarrow> token \<Rightarrow> nat \<Rightarrow> terminal \<Rightarrow> scores \<Rightarrow> error + scores" where
  "heur_verb_arguments cfg tok i t scores =
     rbind (variant t 0)
       (\<lambda>v0. if contains v0 ''012''
             then rbind (py_int v0)
                    (\<lambda>numcases.
                       let adj = (if numcases = 0 \<and> no_zero_argument_meaning cfg tok
                                  then - 5 else 2 * numcases);
                           adjmax = adjmax_loop cfg t (t2 tok)
                       in sc_add i t (adj + adjmax) scores)
             else Inr scores)"

definition heur_verb_form :: "nat \<Rightarrow> terminal \<Rightarrow> scores \<Rightarrow> error + scores" where
  "heur_verb_form i t scores =
     (if is_sagnb t then sc_add i t 6 scores
      else if is_lh t
      then (if has_variant ''vb'' t then sc_add i t (- 2) scores else sc_add i t 3 scores)
      else if is_mm t then sc_add i t 3 scores
      else if is_vh t then sc_add i t 2 scores
      else Inr scores)"

definition heur_verb_subject :: "nat \<Rightarrow> terminal \<Rightarrow> scores \<Rightarrow> error + scores" where
  "heur_verb_subject i t scores =
     (if is_subj t
      then (if has_variant ''none'' t then sc_add i t (- 3) scores else sc_add i t 1 scores)
      else Inr scores)"

text \<open>
  \<^verbatim>\<open>for pt in scores[i - 1].keys()\<close>: the first key of category \<^verbatim>\<open>nhm\<close> gets 2 and
  the loop is left.
\<close>

fun prop_up_nhm :: "nat \<Rightarrow> terminal list \<Rightarrow> scores \<Rightarrow> error + scores" where
  "prop_up_nhm j [] scores = Inr scores"
| "prop_up_nhm j (pt # pts) scores =
     (if first pt = ''nhm'' then sc_add j pt 2 scores else prop_up_nhm j pts scores)"

definition heur_verb_infinitive ::
    "finals \<Rightarrow> nat \<Rightarrow> terminal list \<Rightarrow> terminal \<Rightarrow> scores \<Rightarrow> error + scores" where
  "heur_verb_infinitive finals i s t scores =
     (if is_nh t
      then rbind
             (if i > 0 \<and> list_ex (\<lambda>pt. first pt = ''nhm'') (finals (i - 1))
              then rbind (sc_add i t 4 scores)
                     (\<lambda>scores1.
                        case scores1 (i - 1) of
                          None \<Rightarrow> Inl KeyError
                        | Some prev \<Rightarrow> prop_up_nhm (i - 1) (map fst prev) scores1)
              else Inr scores)
             (\<lambda>scores2.
                if list_ex (\<lambda>pt. first pt = ''no'' \<and> has_variant ''ef'' pt \<and> is_plural pt) s
                then sc_add i t 4 scores2
                else Inr scores2)
      else Inr scores)"

definition heur_verb ::
    "config \<Rightarrow> finals \<Rightarrow> token \<Rightarrow> nat \<Rightarrow> terminal list \<Rightarrow> terminal \<Rightarrow> scores \<Rightarrow> error + scores" where
  "heur_verb cfg finals tok i s t scores =
     rbind (heur_verb_arguments cfg tok i t scores)
       (\<lambda>scores1. rbind (heur_verb_form i t scores1)
          (\<lambda>scores2. rbind (heur_verb_subject i t scores2)
             (heur_verb_infinitive finals i s t)))"

text \<open>\<^verbatim>\<open>for pt in s: if (pt.first == "no" or pt.first == "t\"ol") and pt.has_variant("ef")\<close>.\<close>

fun discourage_possessive :: "nat \<Rightarrow> terminal list \<Rightarrow> scores \<Rightarrow> error + scores" where
  "discourage_possessive i [] scores = Inr scores"
| "discourage_possessive i (pt # pts) scores =
     (if (first pt = ''no'' \<or> first pt = cat_tol) \<and> has_variant ''ef'' pt
      then rbind (sc_add i pt (- 1) scores) (discourage_possessive i pts)
      else discourage_possessive i pts scores)"

definition heur_numeral :: "nat \<Rightarrow> terminal list \<Rightarrow> terminal \<Rightarrow> scores \<Rightarrow> error + scores" where
  "heur_numeral i s t scores =
     rbind (if first t = ''tala'' then sc_add i t (- 1) scores else Inr scores)
       (discourage_possessive i s)"

definition heur_proper_noun :: "token \<Rightarrow> nat \<Rightarrow> nat \<Rightarrow> terminal \<Rightarrow> scores \<Rightarrow> error + scores" where
  "heur_proper_noun tok start i t scores =
     (if t2 tok = [] then sc_add i t 2 scores
      else rbind (sc_add i t (- 6) scores)
             (\<lambda>scores1. if i = start then sc_add i t (- 4) scores1 else Inr scores1))"

definition heur_literal :: "nat \<Rightarrow> terminal \<Rightarrow> scores \<Rightarrow> error + scores" where
  "heur_literal i t scores =
     rbind (is_literal t) (\<lambda>lit. if lit then sc_add i t 1 scores else Inr scores)"

text \<open>The body of \<^verbatim>\<open>for t in s\<close>.\<close>

definition heuristic ::
    "config \<Rightarrow> finals \<Rightarrow> token \<Rightarrow> nat \<Rightarrow> nat \<Rightarrow> terminal list \<Rightarrow> terminal \<Rightarrow> scores \<Rightarrow> error + scores" where
  "heuristic cfg finals tok start i s t scores =
     (if first t = ''ao'' \<or> first t = ''eo'' then heur_adverb i t scores
      else if first t = ''no'' then heur_noun i t scores
      else if first t = ''fs'' then heur_preposition (lower tok) i t scores
      else if first t = ''so'' then heur_verb cfg finals tok i s t scores
      else if first t = ''tala'' \<or> first t = cat_tol then heur_numeral i s t scores
      else if first t = cat_sernafn then heur_proper_noun tok start i t scores
      else heur_literal i t scores)"

fun heuristics_loop ::
    "config \<Rightarrow> finals \<Rightarrow> token \<Rightarrow> nat \<Rightarrow> nat \<Rightarrow> terminal list \<Rightarrow> terminal list \<Rightarrow> scores
       \<Rightarrow> error + scores" where
  "heuristics_loop cfg finals tok start i s [] scores = Inr scores"
| "heuristics_loop cfg finals tok start i s (t # ts) scores =
     rbind (heuristic cfg finals tok start i s t scores)
       (heuristics_loop cfg finals tok start i s ts)"

subsection \<open>The loop over the positions\<close>

text \<open>One round of \<^verbatim>\<open>for i in range(w.start, w.end)\<close>.\<close>

definition calc_position ::
    "config \<Rightarrow> finals \<Rightarrow> tokens \<Rightarrow> nat \<Rightarrow> nat \<Rightarrow> scores \<Rightarrow> error + scores" where
  "calc_position cfg finals tokens start i scores =
     (let s = finals i;
          scores0 = scores(i \<mapsto> map (\<lambda>t. (t, 0)) s)
      in if length s \<le> 1 then Inr scores0
         else (case tokens i of
                 None \<Rightarrow> Inl KeyError
               | Some tok \<Rightarrow>
                   let same_first = (length (remdups (map first s)) = 1);
                       txt = lower tok;
                       prefs = (if same_first then None else Preferences_get cfg txt)
                   in rbind (case prefs of
                               None \<Rightarrow> Inr scores0
                             | Some ps \<Rightarrow>
                                 if ps = [] then Inr scores0
                                 else apply_preferences ps i s scores0)
                        (heuristics_loop cfg finals tok start i s s)))"

fun calc_loop ::
    "config \<Rightarrow> finals \<Rightarrow> tokens \<Rightarrow> nat \<Rightarrow> nat list \<Rightarrow> scores \<Rightarrow> error + scores" where
  "calc_loop cfg finals tokens start [] scores = Inr scores"
| "calc_loop cfg finals tokens start (i # positions) scores =
     rbind (calc_position cfg finals tokens start i scores)
       (calc_loop cfg finals tokens start positions)"

text \<open>\<^verbatim>\<open>w.start\<close> and \<^verbatim>\<open>w.end\<close>; \<^verbatim>\<open>None\<close> has neither.\<close>

definition node_start :: "node \<Rightarrow> error + nat" where
  "node_start w =
     (case w of
        Epsilon \<Rightarrow> Inl AttributeError
      | Token s e t tok \<Rightarrow> Inr s
      | Nonterminal n c s e fams \<Rightarrow> Inr s)"

definition node_end :: "node \<Rightarrow> error + nat" where
  "node_end w =
     (case w of
        Epsilon \<Rightarrow> Inl AttributeError
      | Token s e t tok \<Rightarrow> Inr e
      | Nonterminal n c s e fams \<Rightarrow> Inr e)"

text \<open>\<^verbatim>\<open>_calc_terminal_scores\<close>.\<close>

definition calc_terminal_scores :: "config \<Rightarrow> node \<Rightarrow> error + scores" where
  "calc_terminal_scores cfg w =
     (case find_options w (\<lambda>i. [], Map.empty) of
        (finals, tokens) \<Rightarrow>
          rbind (node_start w)
            (\<lambda>start. rbind (node_end w)
               (\<lambda>end. calc_loop cfg finals tokens start [start..<end] Map.empty)))"

section \<open>The orchestrator\<close>

text \<open>
  \<^verbatim>\<open>go_with_score\<close>, with the two methods it calls on \<^verbatim>\<open>self\<close> as parameters, and
  then with the methods of the class.
\<close>

definition go_with_score_using ::
    "(node \<Rightarrow> error + scores) \<Rightarrow> (node \<Rightarrow> scores \<Rightarrow> error + (node \<times> int \<times> nat)) \<Rightarrow> node
       \<Rightarrow> error + (node \<times> int)" where
  "go_with_score_using calc red forest =
     (if forest = Epsilon then Inr (Epsilon, 0)
      else rbind (calc forest)
             (\<lambda>scores. rbind (red forest scores)
                (\<lambda>(w, score, k). Inr (w, score))))"

definition go_with_score :: "config \<Rightarrow> node \<Rightarrow> error + (node \<times> int)" where
  "go_with_score cfg forest = go_with_score_using (calc_terminal_scores cfg) (reduce cfg) forest"

text \<open>\<^verbatim>\<open>go\<close>.\<close>

definition go_using ::
    "(node \<Rightarrow> error + scores) \<Rightarrow> (node \<Rightarrow> scores \<Rightarrow> error + (node \<times> int \<times> nat)) \<Rightarrow> node
       \<Rightarrow> error + node" where
  "go_using calc red forest = rbind (go_with_score_using calc red forest) (\<lambda>(w, score). Inr w)"

definition go :: "config \<Rightarrow> node \<Rightarrow> error + node" where
  "go cfg forest = go_using (calc_terminal_scores cfg) (reduce cfg) forest"

section \<open>Auxiliary definitions\<close>

text \<open>
  What the priority fields of a \<^verbatim>\<open>ReductionInfo\<close> hold once the families with the
  indices and priorities \<open>ps\<close> have been added: the least priority, the indices of the
  families that have it, and whether two priorities differ.
\<close>

definition prio_inv :: "(nat \<times> int) list \<Rightarrow> ReductionInfo \<Rightarrow> bool" where
  "prio_inv ps r =
     (if ps = [] then ri_highest_prio r = None \<and> ri_highest_ix r = None \<and> \<not> ri_use_prio r
      else ri_highest_prio r = Some (Min (snd ` set ps))
         \<and> ri_highest_ix r = Some {ix. (ix, Min (snd ` set ps)) \<in> set ps}
         \<and> ri_use_prio r = (\<exists>a\<in>set ps. \<exists>b\<in>set ps. snd a \<noteq> snd b))"

text \<open>Concrete values on which the theorems below are evaluated.\<close>

definition example_terminal :: "string \<Rightarrow> string \<Rightarrow> string list \<Rightarrow> terminal" where
  "example_terminal nm cat vs =
     \<lparr> name = nm, first = cat, variants = vs, verb_cases = [],
       is_singular = False, is_plural = False, is_abbrev = False, is_sagnb = False,
       is_lh = False, is_mm = False, is_vh = False, is_subj = False, is_nh = False \<rparr>"

definition example_token :: "string \<Rightarrow> BIN_Meaning list \<Rightarrow> token" where
  "example_token txt ms = \<lparr> t1 = txt, lower = txt, t2 = ms \<rparr>"

definition example_config :: config where
  "example_config =
     \<lparr> nt_scores = Map.empty, Preferences_get = Map.empty,
       VerbObjects_VERBS0 = {}, VerbObjects_SCORES = Map.empty \<rparr>"

definition example_families :: "(production \<times> node list) list" where
  "example_families =
     [(\<lparr> priority = 1 \<rparr>, [Token 0 1 (example_terminal ''ao'' ''ao'' []) (example_token ''x'' [])]),
      (\<lparr> priority = 0 \<rparr>, [Token 0 1 (example_terminal ''no'' ''no'' []) (example_token ''x'' [])])]"

definition example_scores :: scores where
  "example_scores =
     [0 \<mapsto> [(example_terminal ''ao'' ''ao'' [], 10), (example_terminal ''no'' ''no'' [], 0)]]"

text \<open>All nodes of a forest, each once for every path that leads to it from the root.\<close>

fun nodes_of :: "node \<Rightarrow> node list"
  and nodes_of_children :: "node list \<Rightarrow> node list"
  and nodes_of_families :: "(production \<times> node list) list \<Rightarrow> node list"
where
  "nodes_of Epsilon = [Epsilon]"
| "nodes_of (Token s e t tok) = [Token s e t tok]"
| "nodes_of (Nonterminal n c s e fams) = Nonterminal n c s e fams # nodes_of_families fams"
| "nodes_of_children [] = []"
| "nodes_of_children (w # ws) = nodes_of w @ nodes_of_children ws"
| "nodes_of_families [] = []"
| "nodes_of_families ((p, ws) # fs) = nodes_of_children ws @ nodes_of_families fs"

text \<open>The score of a token leaf, and the grammar's adjustment of a completed nonterminal node.\<close>

definition token_score :: "scores \<Rightarrow> node \<Rightarrow> int" where
  "token_score scores w =
     (case w of
        Token s e t tok \<Rightarrow> (case visit_token scores s t of Inr v \<Rightarrow> v | Inl err \<Rightarrow> 0)
      | _ \<Rightarrow> 0)"

definition adjustment :: "config \<Rightarrow> node \<Rightarrow> int" where
  "adjustment cfg w =
     (case w of
        Nonterminal n c s e fams \<Rightarrow>
          (if c then (case nt_scores cfg n of None \<Rightarrow> 0 | Some a \<Rightarrow> a) else 0)
      | _ \<Rightarrow> 0)"

text \<open>A nonterminal node without ambiguity: exactly one family.\<close>

definition single_family :: "node \<Rightarrow> bool" where
  "single_family w = (case w of Nonterminal n c s e fams \<Rightarrow> length fams = 1 | _ \<Rightarrow> True)"

text \<open>Every family of the node lists at least one child (an empty derivation is the child \<open>Epsilon\<close>).\<close>

definition families_have_children :: "node \<Rightarrow> bool" where
  "families_have_children w =
     (case w of Nonterminal n c s e fams \<Rightarrow> list_all (\<lambda>f. snd f \<noteq> []) fams | _ \<Rightarrow> True)"

text \<open>The score table has an entry for the token node.\<close>

definition token_scored :: "scores \<Rightarrow> node \<Rightarrow> bool" where
  "token_scored scores w =
     (case w of Token s e t tok \<Rightarrow> (case visit_token scores s t of Inr v \<Rightarrow> True | Inl err \<Rightarrow> False)
      | _ \<Rightarrow> True)"

definition node_total :: "config \<Rightarrow> scores \<Rightarrow> node list \<Rightarrow> int" where
  "node_total cfg scores ns = (\<Sum>n\<leftarrow>ns. token_score scores n) + (\<Sum>n\<leftarrow>ns. adjustment cfg n)"

definition unambiguous :: "scores \<Rightarrow> node list \<Rightarrow> bool" where
  "unambiguous scores ns =
     (\<forall>n\<in>set ns. single_family n \<and> families_have_children n \<and> token_scored scores n)"

definition acc_sc :: "nat \<Rightarrow> int \<Rightarrow> (nat \<times> int) list \<Rightarrow> (nat \<times> int) list" where
  "acc_sc ix v sc = AList.update ix ((case map_of sc ix of None \<Rightarrow> 0 | Some c \<Rightarrow> c) + v) sc"

definition children_identity :: "config \<Rightarrow> scores \<Rightarrow> node list \<Rightarrow> bool" where
  "children_identity cfg scores ws =
     (\<forall>ix r. \<exists>r'. reduce_children cfg scores ix ws r = Inr (ws, r', 0)
        \<and> ri_nt r' = ri_nt r \<and> ri_use_prio r' = ri_use_prio r
        \<and> ri_sc r' = (if ws = [] then ri_sc r
                      else acc_sc ix (node_total cfg scores (nodes_of_children ws)) (ri_sc r)))"

definition example_tree :: node where
  "example_tree =
     Nonterminal ''S'' True 0 2
       [(\<lparr> priority = 0 \<rparr>,
         [Token 0 1 (example_terminal ''ao'' ''ao'' []) (example_token ''x'' []),
          Nonterminal ''A'' True 1 2
            [(\<lparr> priority = 0 \<rparr>,
              [Token 1 2 (example_terminal ''no'' ''no'' []) (example_token ''y'' []), Epsilon])]])]"

definition example_tree_scores :: scores where
  "example_tree_scores =
     [0 \<mapsto> [(example_terminal ''ao'' ''ao'' [], 3)], 1 \<mapsto> [(example_terminal ''no'' ''no'' [], 4)]]"

definition example_grammar :: config where
  "example_grammar = example_config \<lparr> nt_scores := [''S'' \<mapsto> 10, ''A'' \<mapsto> - 1] \<rparr>"

definition verb_terminal :: terminal where
  "verb_terminal = (example_terminal ''so_1_x'' ''so'' [''1'', ''x'']) \<lparr> verb_cases := ''_x'' \<rparr>"

definition verb_token :: token where
  "verb_token =
     example_token ''v''
       [\<lparr> stofn = ''a'', utg = 1, ordfl = ''so'', fl = ''alm'', ordmynd = ''v'', beyging = ''GM'' \<rparr>,
        \<lparr> stofn = ''b'', utg = 2, ordfl = ''so'', fl = ''alm'', ordmynd = ''v'', beyging = ''GM'' \<rparr>]"

definition verb_config :: config where
  "verb_config = example_config \<lparr> VerbObjects_SCORES := [''a_x'' \<mapsto> 1, ''b_x'' \<mapsto> 5] \<rparr>"

definition verb_forest :: node where
  "verb_forest =
     Nonterminal ''S'' True 0 1
       [(\<lparr> priority = 0 \<rparr>, [Token 0 1 verb_terminal verb_token]),
        (\<lparr> priority = 0 \<rparr>, [Token 0 1 (example_terminal ''x'' ''x'' []) verb_token])]"

text \<open>The score recorded for a terminal at a position, if any, and the keys recorded at a position.\<close>

definition score_at :: "scores \<Rightarrow> nat \<Rightarrow> terminal \<Rightarrow> int option" where
  "score_at scores j t = (case scores j of None \<Rightarrow> None | Some sc \<Rightarrow> map_of sc t)"

definition keys_of :: "scores \<Rightarrow> nat \<Rightarrow> terminal list option" where
  "keys_of scores j = map_option (map fst) (scores j)"

text \<open>A step that keeps all keys and changes no score outside \<open>A\<close>.\<close>

definition only_changes :: "(nat \<times> terminal) set \<Rightarrow> scores \<Rightarrow> scores \<Rightarrow> bool" where
  "only_changes A scores scores' =
     (keys_of scores' = keys_of scores
      \<and> (\<forall>j u. (j, u) \<notin> A \<longrightarrow> score_at scores' j u = score_at scores j u))"

text \<open>The entries a step of the loop over the terminals of position \<open>i\<close> may change besides its own.\<close>

definition before :: "nat \<Rightarrow> (nat \<times> terminal) set" where
  "before i = (if i > 0 then {i - 1} \<times> UNIV else {})"

definition possessive :: "terminal \<Rightarrow> bool" where
  "possessive pt = ((first pt = ''no'' \<or> first pt = cat_tol) \<and> has_variant ''ef'' pt)"

definition numeral :: "terminal \<Rightarrow> bool" where
  "numeral t = (first t = ''tala'' \<or> first t = cat_tol)"


text \<open>What the noun rule adds to a terminal (nothing unless it is a noun).\<close>

definition noun_bonus :: "terminal \<Rightarrow> int" where
  "noun_bonus t =
     (if first t = ''no'' then (if is_singular t then 1 else if is_abbrev t then - 1 else 0) else 0)"

definition tala_terminal :: terminal where
  "tala_terminal = example_terminal ''tala'' ''tala'' []"

definition tol_terminal :: terminal where
  "tol_terminal = example_terminal cat_tol cat_tol []"

definition no_ef_terminal :: terminal where
  "no_ef_terminal = example_terminal ''no_ef'' ''no'' [''ef'']"


definition known_token :: token where
  "known_token =
     example_token ''x''
       [\<lparr> stofn = ''x'', utg = 1, ordfl = ''no'', fl = ''alm'', ordmynd = ''x'', beyging = ''NFET'' \<rparr>]"

definition numeral_forest :: node where
  "numeral_forest =
     Nonterminal ''S'' True 0 1
       [(\<lparr> priority = 0 \<rparr>, [Token 0 1 tala_terminal known_token]),
        (\<lparr> priority = 0 \<rparr>, [Token 0 1 tol_terminal known_token]),
        (\<lparr> priority = 0 \<rparr>, [Token 0 1 no_ef_terminal known_token])]"

text \<open>The terminals of the token nodes among \<open>ns\<close> that start at position \<open>i\<close>, one for each node.\<close>

definition token_terminals :: "node list \<Rightarrow> nat \<Rightarrow> terminal list" where
  "token_terminals ns i =
     concat (map (\<lambda>n. case n of Token s e t tok \<Rightarrow> if s = i then [t] else [] | _ \<Rightarrow> []) ns)"

text \<open>All token nodes among \<open>ns\<close> start inside the span from \<open>a\<close> to \<open>b\<close>.\<close>

definition within_span :: "nat \<Rightarrow> nat \<Rightarrow> node list \<Rightarrow> bool" where
  "within_span a b ns =
     list_all (\<lambda>n. case n of Token s e t tok \<Rightarrow> a \<le> s \<and> s < b | _ \<Rightarrow> True) ns"

text \<open>What the option finder adds to a state: the terminals of the token nodes it walks.\<close>

definition finder_adds :: "node list \<Rightarrow> finals \<times> tokens \<Rightarrow> finals \<times> tokens \<Rightarrow> bool" where
  "finder_adds ns ft ft' =
     (\<forall>i. set (fst ft' i) = set (fst ft i) \<union> set (token_terminals ns i)
          \<and> (distinct (fst ft i) \<longrightarrow> distinct (fst ft' i)))"

definition shared_forest :: node where
  "shared_forest =
     Nonterminal ''S'' True 0 1
       [(\<lparr> priority = 0 \<rparr>, [Token 0 1 tala_terminal known_token]),
        (\<lparr> priority = 0 \<rparr>, [Token 0 1 tala_terminal known_token, Epsilon]),
        (\<lparr> priority = 0 \<rparr>, [Token 0 1 no_ef_terminal known_token])]"






section \<open>Properties of the forest reducer\<close>

lemma Min_snd_mem:
  assumes "ps \<noteq> []"
  shows "\<exists>ix. (ix, Min (snd ` set ps)) \<in> set ps"
proof -
  have "Min (snd ` set ps) \<in> snd ` set ps"
    using assms by (intro Min_in) auto
  then show ?thesis by force
qed

lemma Min_snd_le: "(ix, q) \<in> set ps \<Longrightarrow> Min (snd ` set ps) \<le> q"
  by (rule Min_le) force+

lemma add_child_production_step:
  assumes "ri_nt r \<noteq> None" "ri_highest_prio r = Some m" "ri_highest_ix r = Some H"
  shows "add_child_production ix p r =
           Inr (r\<lparr> ri_use_prio := (ri_use_prio r \<or> priority p \<noteq> m),
                   ri_highest_prio := Some (min (priority p) m),
                   ri_highest_ix := Some (if priority p < m then {ix}
                                          else if priority p = m then insert ix H else H) \<rparr>)"
  using assms by (auto simp: add_child_production_def Let_def min_def)

lemma add_child_production_first:
  assumes nt: "ri_nt r \<noteq> None" and inv: "prio_inv [] r"
  shows "\<exists>r'. add_child_production ix p r = Inr r'
            \<and> prio_inv [(ix, priority p)] r'
            \<and> ri_sc r' = ri_sc r \<and> ri_nt r' = ri_nt r"
  using nt inv
  by (auto simp: add_child_production_def prio_inv_def)

lemma highest_ix_step:
  fixes m q :: int
  assumes le: "\<And>a b. (a, b) \<in> S \<Longrightarrow> m \<le> b"
  shows "{ix'. (ix', min q m) \<in> insert (ix, q) S} = (if q < m then {ix} else if q = m then insert ix {ix. (ix, m) \<in> S} else {ix. (ix, m) \<in> S})"
  proof -
    consider "q < m" | "q = m" | "m < q" by linarith
    then show ?thesis
    proof cases
      case 1
      then have no: "\<And>a. (a, q) \<notin> S" using le by fastforce
      from 1 have mn: "min q m = q" by simp
      have "{ix'. (ix', q) \<in> insert (ix, q) S} = {ix}"
        using no by blast
      with 1 show ?thesis unfolding mn by simp
    next
      case 2
      then have mn: "min q m = m" by simp
      have "{ix'. (ix', m) \<in> insert (ix, m) S} = insert ix {ix. (ix, m) \<in> S}"
        by blast
      with 2 show ?thesis unfolding mn by simp
    next
      case 3
      then have mn: "min q m = m" by simp
      from 3 have "{ix'. (ix', m) \<in> insert (ix, q) S} = {ix. (ix, m) \<in> S}"
        by blast
      with 3 show ?thesis unfolding mn by simp
    qed
  qed

lemma use_prio_step:
  fixes m q :: int
  assumes jx: "(jx, m) \<in> S"
  shows "(\<exists>a\<in>insert (ix, q) S. \<exists>b\<in>insert (ix, q) S. snd a \<noteq> snd b) = ((\<exists>a\<in>S. \<exists>b\<in>S. snd a \<noteq> snd b) \<or> q \<noteq> m)"
proof (cases "q = m")
  case True
  show ?thesis
  proof
    assume "\<exists>a\<in>insert (ix, q) S. \<exists>b\<in>insert (ix, q) S. snd a \<noteq> snd b"
    then obtain a b where a: "a = (ix, q) \<or> a \<in> S" and b: "b = (ix, q) \<or> b \<in> S"
      and ne: "snd a \<noteq> snd b" by blast
    define a' where "a' = (if a \<in> S then a else (jx, m))"
    define b' where "b' = (if b \<in> S then b else (jx, m))"
    have "a' \<in> S" "snd a' = snd a" using a jx True by (auto simp: a'_def)
    moreover have "b' \<in> S" "snd b' = snd b" using b jx True by (auto simp: b'_def)
    ultimately have "\<exists>a\<in>S. \<exists>b\<in>S. snd a \<noteq> snd b" using ne by metis
    then show "(\<exists>a\<in>S. \<exists>b\<in>S. snd a \<noteq> snd b) \<or> q \<noteq> m" ..
  next
    assume "(\<exists>a\<in>S. \<exists>b\<in>S. snd a \<noteq> snd b) \<or> q \<noteq> m"
    with True show "\<exists>a\<in>insert (ix, q) S. \<exists>b\<in>insert (ix, q) S. snd a \<noteq> snd b"
      by blast
  qed
next
  case False
  have "(ix, q) \<in> insert (ix, q) S" "(jx, m) \<in> insert (ix, q) S" "snd (ix, q) \<noteq> snd (jx, m)"
    using jx False by simp_all
  then have "\<exists>a\<in>insert (ix, q) S. \<exists>b\<in>insert (ix, q) S. snd a \<noteq> snd b"
    by blast
  with False show ?thesis by blast
qed

lemma add_child_production_inv:
  assumes nt: "ri_nt r \<noteq> None" and inv: "prio_inv ps r"
  shows "\<exists>r'. add_child_production ix p r = Inr r'
            \<and> prio_inv (ps @ [(ix, priority p)]) r'
            \<and> ri_sc r' = ri_sc r \<and> ri_nt r' = ri_nt r"
proof (cases "ps = []")
  case True
  with add_child_production_first [OF nt, of ix p] inv show ?thesis by simp
next
  case False
  define m where "m = Min (snd ` set ps)"
  define q where "q = priority p"
  define H where "H = {ix. (ix, m) \<in> set ps}"
  define ps' where "ps' = ps @ [(ix, q)]"
  obtain jx where jx: "(jx, m) \<in> set ps"
    using Min_snd_mem [OF False] by (auto simp: m_def)
  have le: "\<And>a b. (a, b) \<in> set ps \<Longrightarrow> m \<le> b"
    unfolding m_def by (rule Min_snd_le)
  have newmin: "Min (snd ` set ps') = min q m"
    using False by (simp add: m_def ps'_def)
  from inv False have hp: "ri_highest_prio r = Some m"
    and hi: "ri_highest_ix r = Some H"
    and up: "ri_use_prio r = (\<exists>a\<in>set ps. \<exists>b\<in>set ps. snd a \<noteq> snd b)"
    by (auto simp: prio_inv_def m_def H_def)
  have setps': "set ps' = insert (ix, q) (set ps)"
    by (simp add: ps'_def)
  have H': "{ix'. (ix', min q m) \<in> set ps'} = (if q < m then {ix} else if q = m then insert ix H else H)"
    unfolding setps' H_def by (rule highest_ix_step) (rule le)
  have U': "(\<exists>a\<in>set ps'. \<exists>b\<in>set ps'. snd a \<noteq> snd b) = (ri_use_prio r \<or> q \<noteq> m)"
    unfolding setps' up by (rule use_prio_step) (rule jx)
  have ne: "ps' \<noteq> []" by (simp add: ps'_def)
  define r' where "r' = r\<lparr> ri_use_prio := (ri_use_prio r \<or> q \<noteq> m),
                   ri_highest_prio := Some (min q m),
                   ri_highest_ix := Some (if q < m then {ix} else if q = m then insert ix H else H) \<rparr>"
  have step: "add_child_production ix p r = Inr r'"
    unfolding q_def r'_def by (rule add_child_production_step [OF nt hp hi])
  have f1: "ri_highest_prio r' = Some (Min (snd ` set ps'))"
    by (simp add: r'_def newmin)
  have f2: "ri_highest_ix r' = Some {ix. (ix, Min (snd ` set ps')) \<in> set ps'}"
    unfolding newmin H' by (simp add: r'_def)
  have f3: "ri_use_prio r' = (\<exists>a\<in>set ps'. \<exists>b\<in>set ps'. snd a \<noteq> snd b)"
    unfolding U' by (simp add: r'_def)
  have "prio_inv ps' r'"
    unfolding prio_inv_def using ne f1 f2 f3 by simp
  moreover have "ri_sc r' = ri_sc r" "ri_nt r' = ri_nt r"
    by (simp_all add: r'_def)
  ultimately show ?thesis
    using step unfolding ps'_def q_def by blast
qed

lemma add_result_fields:
  "ri_nt (add_result ix v r) = ri_nt r"
  "prio_inv ps (add_result ix v r) = prio_inv ps r"
  "fst ` set (ri_sc (add_result ix v r)) = insert ix (fst ` set (ri_sc r))"
  by (simp_all add: add_result_def add_child_score_def prio_inv_def dom_update)

lemma reduce_children_info:
  "reduce_children cfg scores ix ws r = Inr (ws', r', k) \<Longrightarrow>
     ri_nt r' = ri_nt r \<and> prio_inv ps r' = prio_inv ps r
   \<and> fst ` set (ri_sc r') \<subseteq> insert ix (fst ` set (ri_sc r))
   \<and> (ws \<noteq> [] \<longrightarrow> ix \<in> fst ` set (ri_sc r'))
   \<and> fst ` set (ri_sc r) \<subseteq> fst ` set (ri_sc r')
   \<and> length ws' = length ws"
proof (induction ws arbitrary: r ws' r' k)
  case Nil
  then show ?case by auto
next
  case (Cons w ws)
  from Cons.prems obtain w' v ws1 k2 where
    rest: "reduce_children cfg scores ix ws (add_result ix v r) = Inr (ws1, r', k2)"
    and ws': "ws' = w' # ws1"
    by (auto split: sum.splits prod.splits)
  from Cons.IH [OF rest] show ?case
    by (auto simp: add_result_fields ws')
qed

lemma visit_nonterminal_inv:
  "prio_inv [] (visit_nonterminal n c)" "ri_nt (visit_nonterminal n True) = Some n"
  "ri_sc (visit_nonterminal n c) = []" "ri_nt (visit_nonterminal n False) = None"
  by (simp_all add: visit_nonterminal_def ReductionInfo_init_def prio_inv_def)

lemma reduce_families_info:
  "reduce_families cfg scores ix fams r = Inr (fams', r', k) \<Longrightarrow> ri_nt r \<noteq> None \<Longrightarrow> prio_inv ps r \<Longrightarrow>
     prio_inv (ps @ zip [ix..<ix + length fams] (map (\<lambda>f. priority (fst f)) fams)) r'
   \<and> ri_nt r' = ri_nt r
   \<and> map fst fams' = map fst fams"
proof (induction fams arbitrary: ix r ps fams' r' k)
  case Nil
  then show ?case by auto
next
  case (Cons f fs)
  obtain p ws where f: "f = (p, ws)" by (cases f)
  from add_child_production_inv [OF Cons.prems(2,3), of ix p]
  obtain r1 where r1: "visit_family ix p r = Inr r1"
    and inv1: "prio_inv (ps @ [(ix, priority p)]) r1" and nt1: "ri_nt r1 = ri_nt r"
    by (auto simp: visit_family_def)
  from Cons.prems(1) r1 obtain ws' r2 k1 fs' k2 where
    ch: "reduce_children cfg scores ix ws r1 = Inr (ws', r2, k1)"
    and rest: "reduce_families cfg scores (Suc ix) fs r2 = Inr (fs', r', k2)"
    and fams': "fams' = (p, ws') # fs'"
    by (auto simp: f split: sum.splits prod.splits)
  from reduce_children_info [OF ch, of "ps @ [(ix, priority p)]"] inv1 nt1
  have inv2: "prio_inv (ps @ [(ix, priority p)]) r2" and nt2: "ri_nt r2 = ri_nt r"
    by auto
  from nt2 Cons.prems(2) have nt2': "ri_nt r2 \<noteq> None" by simp
  from Cons.IH [OF rest nt2' inv2]
  have a: "prio_inv ((ps @ [(ix, priority p)]) @ zip [Suc ix..<Suc ix + length fs] (map (\<lambda>f. priority (fst f)) fs)) r'"
    and b: "ri_nt r' = ri_nt r2" and c: "map fst fs' = map fst fs"
    by auto
  have z: "zip [ix..<ix + length (f # fs)] (map (\<lambda>f. priority (fst f)) (f # fs))
           = (ix, priority p) # zip [Suc ix..<Suc ix + length fs] (map (\<lambda>f. priority (fst f)) fs)"
  proof -
    have u: "[ix..<ix + length (f # fs)] = ix # [Suc ix..<Suc ix + length fs]"
      by (subst upt_rec) simp
    show ?thesis unfolding u by (simp add: f)
  qed
  show ?case
    unfolding z using a b c nt2 by (simp add: fams' f)
qed

lemma set_zip_upt_map:
  "set (zip [0..<length xs] (map g xs)) = {(i, g (xs ! i)) | i. i < length xs}"
proof -
  have "\<And>i. i < length xs \<Longrightarrow>
          \<exists>ia. i = [0..<length xs] ! ia \<and> g (xs ! i) = map g xs ! ia \<and> ia < length xs"
    by (rule_tac x = i in exI) simp
  then show ?thesis by (auto simp: set_zip)
qed

lemma process_results_use_prio:
  assumes "ri_use_prio r" "ri_highest_ix r = Some H" "process_results cfg r = Inr (red, v)"
  shows "\<exists>ix\<in>H. red = Some ix"
proof -
  define csc where "csc = filter (\<lambda>(ix, v). ix \<in> H) (ri_sc r)"
  from assms obtain ix v0 rest where s: "sorted_desc csc = (ix, v0) # rest" and red: "red = Some ix"
    by (auto simp: process_results_def csc_def split: list.splits sum.splits if_splits)
  have "(ix, v0) \<in> set (sorted_desc csc)" unfolding s by simp
  then have "(ix, v0) \<in> set csc" by (simp add: sorted_desc_def)
  then have "ix \<in> H" by (auto simp: csc_def)
  with red show ?thesis by blast
qed

text \<open>
  C1 (priority dominance). When the reduction of a completed nonterminal node whose
  families carry differing production priorities returns, the node is left with exactly
  one family, its production is the production of one of the node's families, and the
  priority of that production is the least priority number among the node's families,
  whatever the scores of the families are.
\<close>

theorem priority_dominance:
  assumes red: "reduce_node cfg scores (Nonterminal n True s e fams) = Inr (w', v, k)"
    and diff: "\<exists>f\<in>set fams. \<exists>g\<in>set fams. priority (fst f) \<noteq> priority (fst g)"
  shows "\<exists>ix ws'. ix < length fams
           \<and> w' = Nonterminal n True s e [(fst (fams ! ix), ws')]
           \<and> priority (fst (fams ! ix)) = Min ((\<lambda>f. priority (fst f)) ` set fams)"
proof -
  define ps where "ps = zip [0..<length fams] (map (\<lambda>f. priority (fst f)) fams)"
  from red obtain fams' results k0 rd where
    rf: "reduce_families cfg scores 0 fams (visit_nonterminal n True) = Inr (fams', results, k0)"
    and pr: "process_results cfg results = Inr (rd, v)"
    by (auto split: sum.splits prod.splits option.splits)
  have nt0: "ri_nt (visit_nonterminal n True) \<noteq> None"
    by (simp add: visit_nonterminal_inv)
  from reduce_families_info [OF rf nt0 visit_nonterminal_inv(1)]
  have inv: "prio_inv ps results" and mf: "map fst fams' = map fst fams"
    by (simp_all add: ps_def)
  have setps: "set ps = {(i, priority (fst (fams ! i))) | i. i < length fams}"
    unfolding ps_def by (rule set_zip_upt_map)
  from diff have ne: "fams \<noteq> []" by auto
  then have psne: "ps \<noteq> []" by (simp add: ps_def)
  have img: "snd ` set ps = (\<lambda>f. priority (fst f)) ` set fams"
    unfolding setps by (force simp: in_set_conv_nth)
  from diff obtain i j where ij: "i < length fams" "j < length fams"
    "priority (fst (fams ! i)) \<noteq> priority (fst (fams ! j))"
    by (auto simp: in_set_conv_nth)
  then have "(i, priority (fst (fams ! i))) \<in> set ps" "(j, priority (fst (fams ! j))) \<in> set ps"
    unfolding setps by auto
  with ij(3) have d: "\<exists>a\<in>set ps. \<exists>b\<in>set ps. snd a \<noteq> snd b"
    by (metis snd_conv)
  from inv psne d have up: "ri_use_prio results"
    and hi: "ri_highest_ix results = Some {ix. (ix, Min (snd ` set ps)) \<in> set ps}"
    by (simp_all add: prio_inv_def)
  from process_results_use_prio [OF up hi pr]
  obtain ix where ixH: "(ix, Min (snd ` set ps)) \<in> set ps" and rd: "rd = Some ix"
    by auto
  from ixH have lt: "ix < length fams"
    and mn: "priority (fst (fams ! ix)) = Min ((\<lambda>f. priority (fst f)) ` set fams)"
    unfolding setps img [symmetric] by auto
  from mf have len: "length fams' = length fams"
    by (metis length_map)
  from mf lt have fst_eq: "fst (fams' ! ix) = fst (fams ! ix)"
    by (metis len nth_map)
  from red rf pr rd lt len have "w' = Nonterminal n True s e [fams' ! ix]"
    by (auto simp: reduce_to_def)
  then have "w' = Nonterminal n True s e [(fst (fams ! ix), snd (fams' ! ix))]"
    using fst_eq by (metis prod.collapse)
  with lt mn show ?thesis by blast
qed

theorem priority_dominance_witness:
  "reduce_node example_config example_scores (Nonterminal ''S'' True 0 1 example_families)
     = Inr (Nonterminal ''S'' True 0 1 [example_families ! 1], 0, 1)
   \<and> (\<exists>f\<in>set example_families. \<exists>g\<in>set example_families. priority (fst f) \<noteq> priority (fst g))
   \<and> (\<exists>ix ws'. ix < length example_families
         \<and> Nonterminal ''S'' True 0 1 [example_families ! 1]
             = Nonterminal ''S'' True 0 1 [(fst (example_families ! ix), ws')]
         \<and> priority (fst (example_families ! ix))
             = Min ((\<lambda>f. priority (fst f)) ` set example_families))"
proof -
  have r: "reduce_node example_config example_scores (Nonterminal ''S'' True 0 1 example_families)
     = Inr (Nonterminal ''S'' True 0 1 [example_families ! 1], 0, 1)"
    by (simp add: visit_token_def visit_nonterminal_def ReductionInfo_init_def visit_family_def
        add_child_production_def add_result_def add_child_score_def process_results_def
        sorted_desc_def reduce_to_def Let_def example_terminal_def example_config_def
        example_families_def example_scores_def visit_epsilon_def)
  have d: "\<exists>f\<in>set example_families. \<exists>g\<in>set example_families. priority (fst f) \<noteq> priority (fst g)"
    unfolding example_families_def
    by (rule bexI [where x = "(\<lparr> priority = 1 \<rparr>, [Token 0 1 (example_terminal ''ao'' ''ao'' []) (example_token ''x'' [])])"],
        rule bexI [where x = "(\<lparr> priority = 0 \<rparr>, [Token 0 1 (example_terminal ''no'' ''no'' []) (example_token ''x'' [])])"])
      simp_all
  show ?thesis
    using r d priority_dominance [OF r d] by (intro conjI)
qed

lemma node_total_simps:
  "node_total cfg scores [] = 0"
  "node_total cfg scores (xs @ ys) = node_total cfg scores xs + node_total cfg scores ys"
  "node_total cfg scores (x # xs) = token_score scores x + adjustment cfg x + node_total cfg scores xs"
  by (simp_all add: node_total_def)

lemma unambiguous_simps:
  "unambiguous scores []"
  "unambiguous scores (xs @ ys) = (unambiguous scores xs \<and> unambiguous scores ys)"
  "unambiguous scores (x # xs) =
     (single_family x \<and> families_have_children x \<and> token_scored scores x \<and> unambiguous scores xs)"
  by (auto simp: unambiguous_def)

lemma add_result_sc:
  "ri_sc (add_result ix v r) = AList.update ix ((case map_of (ri_sc r) ix of None \<Rightarrow> 0 | Some c \<Rightarrow> c) + v) (ri_sc r)"
  "ri_nt (add_result ix v r) = ri_nt r"
  "ri_use_prio (add_result ix v r) = ri_use_prio r"
  by (simp_all add: add_result_def add_child_score_def)

lemma acc_sc_acc_sc: "acc_sc ix b (acc_sc ix a sc) = acc_sc ix (a + b) sc"
  by (simp add: acc_sc_def update_conv' add.assoc)

lemma visit_family_first:
  "\<exists>r1. visit_family ix p (visit_nonterminal n c) = Inr r1 \<and> ri_sc r1 = []
        \<and> \<not> ri_use_prio r1 \<and> ri_nt r1 = (if c then Some n else None)"
  by (cases c)
    (simp_all add: visit_family_def visit_nonterminal_def ReductionInfo_init_def
      add_child_production_def Let_def)

lemma reduce_unambiguous:
  "unambiguous scores (nodes_of w) \<Longrightarrow>
     reduce_node cfg scores w = Inr (w, node_total cfg scores (nodes_of w), 0)"
  "unambiguous scores (nodes_of_children ws) \<Longrightarrow> children_identity cfg scores ws"
  "unambiguous scores (nodes_of_families fams) \<Longrightarrow>
     \<forall>f\<in>set fams. children_identity cfg scores (snd f)"
proof (induction w and ws and fams rule: nodes_of_nodes_of_children_nodes_of_families.induct)
  case 1
  show ?case by (simp add: node_total_simps token_score_def adjustment_def visit_epsilon_def)
next
  case (2 s e t tok)
  then show ?case
    by (auto simp: node_total_simps token_score_def adjustment_def unambiguous_simps token_scored_def
        split: sum.splits)
next
  case (3 n c s e fams)
  from "3.prems" have one: "length fams = 1" and ch: "list_all (\<lambda>f. snd f \<noteq> []) fams"
    and un: "unambiguous scores (nodes_of_families fams)"
    by (simp_all add: unambiguous_simps single_family_def families_have_children_def)
  from one obtain p ws where fams: "fams = [(p, ws)]"
    by (cases fams) auto
  from ch fams have ne: "ws \<noteq> []" by simp
  define r0 where "r0 = visit_nonterminal n c"
  obtain r1 where r1: "visit_family 0 p r0 = Inr r1" and sc1: "ri_sc r1 = []"
    and up1: "\<not> ri_use_prio r1" and nt1: "ri_nt r1 = (if c then Some n else None)"
    using visit_family_first [of 0 p n c] unfolding r0_def by blast
  from "3.IH" [OF un] fams have "children_identity cfg scores ws" by simp
  then obtain r2 where
    r2: "reduce_children cfg scores 0 ws r1 = Inr (ws, r2, 0)"
    and nt2: "ri_nt r2 = ri_nt r1" and up2: "ri_use_prio r2 = ri_use_prio r1"
    and sc2: "ri_sc r2 = acc_sc 0 (node_total cfg scores (nodes_of_children ws)) (ri_sc r1)"
    using ne unfolding children_identity_def by fastforce
  have sc2': "ri_sc r2 = [(0, node_total cfg scores (nodes_of_children ws))]"
    unfolding sc2 sc1 by (simp add: acc_sc_def)
  have pr: "process_results cfg r2 =
              Inr (None, node_total cfg scores (nodes_of_children ws)
                         + adjustment cfg (Nonterminal n c s e fams))"
    using up1 up2 nt1 nt2 sc2'
    by (simp add: process_results_def adjustment_def)
  have tot: "node_total cfg scores (nodes_of (Nonterminal n c s e fams))
           = node_total cfg scores (nodes_of_children ws) + adjustment cfg (Nonterminal n c s e fams)"
    by (simp add: fams node_total_simps token_score_def)
  show ?case
    unfolding tot using r1 r2 pr
    by (simp add: fams r0_def [symmetric])
next
  case 4
  show ?case by (simp add: children_identity_def)
next
  case (5 w ws)
  from "5.prems" have uw: "unambiguous scores (nodes_of w)"
    and uws: "unambiguous scores (nodes_of_children ws)"
    by (simp_all add: unambiguous_simps)
  define v where "v = node_total cfg scores (nodes_of w)"
  have w: "reduce_node cfg scores w = Inr (w, v, 0)"
    unfolding v_def by (rule "5.IH"(1) [OF uw])
  have "\<exists>r'. reduce_children cfg scores ix (w # ws) r = Inr (w # ws, r', 0)
        \<and> ri_nt r' = ri_nt r \<and> ri_use_prio r' = ri_use_prio r
        \<and> ri_sc r' = acc_sc ix (node_total cfg scores (nodes_of_children (w # ws))) (ri_sc r)" for ix r
  proof -
  from "5.IH"(2) [OF uws] obtain r' where
    r': "reduce_children cfg scores ix ws (add_result ix v r) = Inr (ws, r', 0)"
    and nt: "ri_nt r' = ri_nt r" and up: "ri_use_prio r' = ri_use_prio r"
    and sc: "ri_sc r' = (if ws = [] then acc_sc ix v (ri_sc r)
                         else acc_sc ix (node_total cfg scores (nodes_of_children ws)) (acc_sc ix v (ri_sc r)))"
    unfolding children_identity_def
    by (metis add_result_sc acc_sc_def)
  have "ri_sc r' = acc_sc ix (node_total cfg scores (nodes_of_children (w # ws))) (ri_sc r)"
    unfolding sc by (simp add: acc_sc_acc_sc node_total_simps v_def)
  with w r' nt up show ?thesis by simp
  qed
  then show ?case unfolding children_identity_def by simp
next
  case 6
  show ?case by simp
next
  case (7 p ws fs)
  from "7.prems" have uws: "unambiguous scores (nodes_of_children ws)"
    and ufs: "unambiguous scores (nodes_of_families fs)"
    by (simp_all add: unambiguous_simps)
  from "7.IH"(1) [OF uws] "7.IH"(2) [OF ufs] show ?case
    by simp
qed

text \<open>
  C2 (no-ambiguity identity). If every nonterminal node of the forest has exactly one
  family, every family lists at least one child and the score table has an entry for
  every token node, then the reduction returns the forest unchanged, \<^verbatim>\<open>reduce_to\<close> is
  never called, and the score returned is the sum of the scores of all token leaves
  plus the score adjustments of all completed nonterminal nodes.
\<close>

theorem no_ambiguity_identity:
  assumes "\<forall>n\<in>set (nodes_of w). single_family n \<and> families_have_children n \<and> token_scored scores n"
  shows "reduce cfg w scores =
           Inr (w, (\<Sum>n\<leftarrow>nodes_of w. token_score scores n) + (\<Sum>n\<leftarrow>nodes_of w. adjustment cfg n), 0)"
proof -
  from assms have "unambiguous scores (nodes_of w)"
    by (simp add: unambiguous_def)
  then show ?thesis
    unfolding reduce_def node_total_def [symmetric] by (rule reduce_unambiguous(1))
qed

theorem no_ambiguity_identity_witness:
  "reduce example_grammar example_tree example_tree_scores = Inr (example_tree, 16, 0)"
proof -
  have h: "\<forall>n\<in>set (nodes_of example_tree).
       single_family n \<and> families_have_children n \<and> token_scored example_tree_scores n"
    by (simp add: example_tree_def example_tree_scores_def single_family_def
        families_have_children_def token_scored_def visit_token_def example_terminal_def)
  have s: "(\<Sum>n\<leftarrow>nodes_of example_tree. token_score example_tree_scores n)
         + (\<Sum>n\<leftarrow>nodes_of example_tree. adjustment example_grammar n) = 16"
    by (simp add: example_tree_def example_tree_scores_def token_score_def adjustment_def
        visit_token_def example_terminal_def example_grammar_def example_config_def)
  from no_ambiguity_identity [OF h, of example_grammar] s show ?thesis
    by simp
qed

text \<open>
  C8 (absent forest). For the absent forest \<^verbatim>\<open>go_with_score\<close> returns no tree and the
  score 0, and \<^verbatim>\<open>go\<close> returns no tree, whatever the scorer and the reducer would do:
  the result is the same for every pair of passes, also for passes that always fail,
  so neither is called; no error is raised.
\<close>

theorem absent_forest:
  "go_with_score_using calc red Epsilon = Inr (Epsilon, 0)
   \<and> go_using calc red Epsilon = Inr Epsilon
   \<and> go_with_score cfg Epsilon = Inr (Epsilon, 0)
   \<and> go cfg Epsilon = Inr Epsilon"
  by (simp add: go_with_score_using_def go_using_def go_with_score_def go_def rbind_def)

theorem absent_forest_witness:
  "go_with_score_using (\<lambda>w. Inl KeyError) (\<lambda>w scores. Inl KeyError) Epsilon = Inr (Epsilon, 0)
   \<and> go_using (\<lambda>w. Inl KeyError) (\<lambda>w scores. Inl KeyError) Epsilon = Inr Epsilon
   \<and> go_with_score example_config Epsilon = Inr (Epsilon, 0)
   \<and> go example_config Epsilon = Inr Epsilon"
  by (rule absent_forest)

text \<open>
  C3 (verb-case score). At an ambiguous position, a verb terminal with one argument and
  a token with two verb meanings whose verb-case scores are 1 and 5, in this order, the
  loop takes the score 1 of the first meaning and the terminal ends with 2 + 1 = 3; the
  largest of the scores is 5.
\<close>

theorem verb_case_score_first_found:
  "calc_terminal_scores verb_config verb_forest
     = Inr [0 \<mapsto> [(verb_terminal, 3), (example_terminal ''x'' ''x'' [], 0)]]
   \<and> adjmax_loop verb_config verb_terminal (t2 verb_token) = 1
   \<and> VerbObjects_SCORES verb_config (stofn (t2 verb_token ! 1) @ verb_cases verb_terminal) = Some 5"
proof -
  have ne: "verb_terminal \<noteq> example_terminal ''x'' ''x'' []"
    by (simp add: verb_terminal_def example_terminal_def)
  have f: "find_options verb_forest (\<lambda>i. [], Map.empty)
            = ((\<lambda>i. [])(0 := [verb_terminal, example_terminal ''x'' ''x'' []]), [0 \<mapsto> verb_token])"
    using ne by (simp add: verb_forest_def find_options_def OptionFinder_visit_token_def set_add_def)
  have a: "adjmax_loop verb_config verb_terminal (t2 verb_token) = 1"
    by (simp add: verb_config_def verb_terminal_def verb_token_def example_token_def
        example_terminal_def example_config_def)
  have v: "variant verb_terminal 0 = Inr ''1''" "first verb_terminal = ''so''"
    "first (example_terminal ''x'' ''x'' []) = ''x''" "name (example_terminal ''x'' ''x'' []) = ''x''"
    "is_sagnb verb_terminal = False" "is_lh verb_terminal = False" "is_mm verb_terminal = False"
    "is_vh verb_terminal = False" "is_subj verb_terminal = False" "is_nh verb_terminal = False"
    by (simp_all add: variant_def verb_terminal_def example_terminal_def)
  have c: "calc_position verb_config ((\<lambda>i. [])(0 := [verb_terminal, example_terminal ''x'' ''x'' []]))
             [0 \<mapsto> verb_token] 0 0 Map.empty
           = Inr [0 \<mapsto> [(verb_terminal, 3), (example_terminal ''x'' ''x'' [], 0)]]"
    using ne ne [symmetric] a v
    by (simp add: calc_position_def Let_def rbind_def heuristic_def heur_verb_def
        heur_verb_arguments_def heur_verb_form_def heur_verb_subject_def heur_verb_infinitive_def
        heur_literal_def is_literal_def sc_add_def py_int_def is_digit_def cat_tol_def cat_sernafn_def
        verb_config_def example_config_def)
  have "calc_terminal_scores verb_config verb_forest
     = Inr [0 \<mapsto> [(verb_terminal, 3), (example_terminal ''x'' ''x'' [], 0)]]"
  proof -
    have se: "node_start verb_forest = Inr 0" "node_end verb_forest = Inr 1"
      by (simp_all add: node_start_def node_end_def verb_forest_def)
    show ?thesis
      by (simp add: calc_terminal_scores_def f se rbind_def c)
  qed
  moreover have "VerbObjects_SCORES verb_config (stofn (t2 verb_token ! 1) @ verb_cases verb_terminal) = Some 5"
    by (simp add: verb_config_def verb_terminal_def verb_token_def example_token_def
        example_terminal_def example_config_def)
  ultimately show ?thesis using a by simp
qed

lemma visit_token_score_at:
  "visit_token scores s t = (case score_at scores s t of None \<Rightarrow> Inl KeyError | Some v \<Rightarrow> Inr v)"
  by (simp add: visit_token_def score_at_def split: option.splits)

lemma update_existing_keys:
  "map_of sc t = Some v \<Longrightarrow> map fst (AList.update t w sc) = map fst sc"
  by (simp add: update_keys map_of_eq_None_iff [symmetric] del: map_of_eq_None_iff)

lemma sc_add_Inr:
  assumes "sc_add i t d scores = Inr scores'"
  shows "\<exists>v. score_at scores i t = Some v
           \<and> score_at scores' = (score_at scores)(i := (score_at scores i)(t \<mapsto> v + d))
           \<and> keys_of scores' = keys_of scores"
proof -
  from assms obtain sc v where sc: "scores i = Some sc" and v: "map_of sc t = Some v"
    and s': "scores' = scores(i \<mapsto> AList.update t (v + d) sc)"
    by (auto simp: sc_add_def split: option.splits)
  have 1: "score_at scores i t = Some v"
    by (simp add: score_at_def sc v)
  have 2: "score_at scores' = (score_at scores)(i := (score_at scores i)(t \<mapsto> v + d))"
    by (rule ext, rule ext) (simp add: score_at_def s' sc update_conv')
  have 3: "keys_of scores' = keys_of scores"
    by (rule ext) (simp add: keys_of_def s' sc update_existing_keys [OF v])
  from 1 2 3 show ?thesis by blast
qed


lemma sc_add_only:
  "sc_add i t d scores = Inr scores' \<Longrightarrow> only_changes {(i, t)} scores scores'"
  by (drule sc_add_Inr) (auto simp: only_changes_def)

lemma only_changes_refl: "only_changes A scores scores"
  by (simp add: only_changes_def)

lemma only_changes_trans:
  "only_changes A s1 s2 \<Longrightarrow> only_changes B s2 s3 \<Longrightarrow> only_changes (A \<union> B) s1 s3"
  by (simp add: only_changes_def)

lemma only_changes_mono:
  "only_changes A s1 s2 \<Longrightarrow> A \<subseteq> B \<Longrightarrow> only_changes B s1 s2"
  by (auto simp: only_changes_def)

lemma only_changes_keys: "only_changes A s1 s2 \<Longrightarrow> keys_of s2 = keys_of s1"
  by (simp add: only_changes_def)

lemma only_changes_score:
  "only_changes A s1 s2 \<Longrightarrow> (j, u) \<notin> A \<Longrightarrow> score_at s2 j u = score_at s1 j u"
  by (simp add: only_changes_def)

lemma rbind_Inr:
  "rbind m f = Inr y \<longleftrightarrow> (\<exists>x. m = Inr x \<and> f x = Inr y)"
  by (cases m) (simp_all add: rbind_def)

lemma heur_adverb_only:
  "heur_adverb i t scores = Inr scores' \<Longrightarrow> only_changes {(i, t)} scores scores'"
  by (simp add: heur_adverb_def sc_add_only)

lemma heur_noun_only:
  "heur_noun i t scores = Inr scores' \<Longrightarrow> only_changes {(i, t)} scores scores'"
  by (auto simp: heur_noun_def sc_add_only only_changes_refl split: if_splits)

lemma heur_preposition_only:
  "heur_preposition txt i t scores = Inr scores' \<Longrightarrow> only_changes {(i, t)} scores scores'"
  by (auto simp: heur_preposition_def sc_add_only split: if_splits)

lemma heur_literal_only:
  "heur_literal i t scores = Inr scores' \<Longrightarrow> only_changes {(i, t)} scores scores'"
  by (auto simp: heur_literal_def rbind_Inr sc_add_only only_changes_refl split: if_splits)

lemma heur_proper_noun_only:
  "heur_proper_noun tok start i t scores = Inr scores' \<Longrightarrow> only_changes {(i, t)} scores scores'"
  by (auto simp: heur_proper_noun_def rbind_Inr split: if_splits
      dest!: sc_add_only dest: only_changes_trans)

lemma heur_verb_arguments_only:
  "heur_verb_arguments cfg tok i t scores = Inr scores' \<Longrightarrow> only_changes {(i, t)} scores scores'"
  by (auto simp: heur_verb_arguments_def rbind_Inr Let_def sc_add_only only_changes_refl split: if_splits)

lemma heur_verb_form_only:
  "heur_verb_form i t scores = Inr scores' \<Longrightarrow> only_changes {(i, t)} scores scores'"
  by (auto simp: heur_verb_form_def sc_add_only only_changes_refl split: if_splits)

lemma heur_verb_subject_only:
  "heur_verb_subject i t scores = Inr scores' \<Longrightarrow> only_changes {(i, t)} scores scores'"
  by (auto simp: heur_verb_subject_def sc_add_only only_changes_refl split: if_splits)

lemma prop_up_nhm_only:
  "prop_up_nhm j pts scores = Inr scores' \<Longrightarrow> only_changes ({j} \<times> UNIV) scores scores'"
proof (induction pts)
  case Nil
  then show ?case by (simp add: only_changes_refl)
next
  case (Cons pt pts)
  show ?case
  proof (cases "first pt = ''nhm''")
    case True
    with Cons.prems have "sc_add j pt 2 scores = Inr scores'" by simp
    then show ?thesis
      by (rule only_changes_mono [OF sc_add_only]) simp
  next
    case False
    with Cons show ?thesis by simp
  qed
qed

lemma heur_verb_infinitive_only:
  assumes "heur_verb_infinitive finals i s t scores = Inr scores'"
  shows "only_changes ({(i, t)} \<union> before i) scores scores'"
proof (cases "is_nh t")
  case False
  with assms show ?thesis by (simp add: heur_verb_infinitive_def only_changes_refl)
next
  case True
  with assms obtain scores2 where
    a: "(if i > 0 \<and> list_ex (\<lambda>pt. first pt = ''nhm'') (finals (i - 1))
         then rbind (sc_add i t 4 scores)
                (\<lambda>scores1. case scores1 (i - 1) of None \<Rightarrow> Inl KeyError
                            | Some prev \<Rightarrow> prop_up_nhm (i - 1) (map fst prev) scores1)
         else Inr scores) = Inr scores2"
    and b: "(if list_ex (\<lambda>pt. first pt = ''no'' \<and> has_variant ''ef'' pt \<and> is_plural pt) s
             then sc_add i t 4 scores2 else Inr scores2) = Inr scores'"
    by (auto simp: heur_verb_infinitive_def rbind_Inr)
  have 1: "only_changes ({(i, t)} \<union> before i) scores scores2"
  proof (cases "i > 0 \<and> list_ex (\<lambda>pt. first pt = ''nhm'') (finals (i - 1))")
    case False
    with a show ?thesis by (auto simp: only_changes_refl)
  next
    case True
    with a have "rbind (sc_add i t 4 scores)
                (\<lambda>scores1. case scores1 (i - 1) of None \<Rightarrow> Inl KeyError
                            | Some prev \<Rightarrow> prop_up_nhm (i - 1) (map fst prev) scores1) = Inr scores2"
      by simp
    then obtain scores1 where s1: "sc_add i t 4 scores = Inr scores1"
      and c: "(case scores1 (i - 1) of None \<Rightarrow> Inl KeyError
               | Some prev \<Rightarrow> prop_up_nhm (i - 1) (map fst prev) scores1) = Inr scores2"
      unfolding rbind_Inr by blast
    from c obtain prev :: "(terminal \<times> int) list"
      where p: "prop_up_nhm (i - 1) (map fst prev) scores1 = Inr scores2"
      by (cases "scores1 (i - 1)") auto
    from only_changes_trans [OF sc_add_only [OF s1] prop_up_nhm_only [OF p]] True
    show ?thesis by (simp add: before_def)
  qed
  have 2: "only_changes {(i, t)} scores2 scores'"
    using b by (auto simp: sc_add_only only_changes_refl split: if_splits)
  from only_changes_trans [OF 1 2] show ?thesis
    by (rule only_changes_mono) auto
qed

lemma heur_verb_only:
  assumes "heur_verb cfg finals tok i s t scores = Inr scores'"
  shows "only_changes ({(i, t)} \<union> before i) scores scores'"
proof -
  from assms obtain s1 s2 s3 where
    1: "heur_verb_arguments cfg tok i t scores = Inr s1"
    and 2: "heur_verb_form i t s1 = Inr s2"
    and 3: "heur_verb_subject i t s2 = Inr s3"
    and 4: "heur_verb_infinitive finals i s t s3 = Inr scores'"
    by (auto simp: heur_verb_def rbind_Inr)
  from only_changes_trans [OF only_changes_trans [OF only_changes_trans
        [OF heur_verb_arguments_only [OF 1] heur_verb_form_only [OF 2]]
        heur_verb_subject_only [OF 3]] heur_verb_infinitive_only [OF 4]]
  show ?thesis by (rule only_changes_mono) auto
qed

lemma discourage_possessive_effect:
  "discourage_possessive i pts scores = Inr scores' \<Longrightarrow>
     keys_of scores' = keys_of scores
   \<and> (\<forall>j u. score_at scores' j u =
         (if j = i \<and> possessive u
          then map_option (\<lambda>v. v - int (count_list pts u)) (score_at scores j u)
          else score_at scores j u))"
proof (induction pts arbitrary: scores)
  case Nil
  then show ?case by (simp add: option.map_ident)
next
  case (Cons pt pts)
  show ?case
  proof (cases "possessive pt")
    case False
    with Cons.prems have "discourage_possessive i pts scores = Inr scores'"
      by (auto simp: possessive_def)
    from Cons.IH [OF this] False show ?thesis by auto
  next
    case True
    with Cons.prems obtain s1 where a: "sc_add i pt (- 1) scores = Inr s1"
      and r: "discourage_possessive i pts s1 = Inr scores'"
      by (auto simp: possessive_def rbind_Inr)
    from sc_add_Inr [OF a] obtain v where v: "score_at scores i pt = Some v"
      and s1: "score_at s1 = (score_at scores)(i := (score_at scores i)(pt \<mapsto> v + - 1))"
      and k1: "keys_of s1 = keys_of scores"
      by blast
    from Cons.IH [OF r] have k: "keys_of scores' = keys_of s1"
      and e: "\<And>j u. score_at scores' j u =
         (if j = i \<and> possessive u
          then map_option (\<lambda>v. v - int (count_list pts u)) (score_at s1 j u)
          else score_at s1 j u)"
      by auto
    have "score_at scores' j u =
         (if j = i \<and> possessive u
          then map_option (\<lambda>v. v - int (count_list (pt # pts) u)) (score_at scores j u)
          else score_at scores j u)" for j u
      unfolding e s1 using v True by (cases "score_at scores i u") auto
    with k k1 show ?thesis by simp
  qed
qed

lemma heur_numeral_effect:
  assumes "heur_numeral i s t scores = Inr scores'"
  shows "keys_of scores' = keys_of scores"
    and "j \<noteq> i \<Longrightarrow> score_at scores' j u = score_at scores j u"
    and "u \<noteq> t \<Longrightarrow> score_at scores' i u =
           (if possessive u then map_option (\<lambda>v. v - int (count_list s u)) (score_at scores i u)
            else score_at scores i u)"
    and "first t = ''tala'' \<Longrightarrow> score_at scores' i t = map_option (\<lambda>v. v - 1) (score_at scores i t)"
    and "first t \<noteq> ''tala'' \<Longrightarrow> score_at scores' i t =
           (if possessive t then map_option (\<lambda>v. v - int (count_list s t)) (score_at scores i t)
            else score_at scores i t)"
proof -
  from assms obtain s1 where
    a: "(if first t = ''tala'' then sc_add i t (- 1) scores else Inr scores) = Inr s1"
    and d: "discourage_possessive i s s1 = Inr scores'"
    by (auto simp: heur_numeral_def rbind_Inr)
  have o: "only_changes {(i, t)} scores s1"
    using a by (auto simp: sc_add_only only_changes_refl split: if_splits)
  note e = discourage_possessive_effect [OF d]
  show "keys_of scores' = keys_of scores"
    using e only_changes_keys [OF o] by simp
  show "j \<noteq> i \<Longrightarrow> score_at scores' j u = score_at scores j u"
    using e only_changes_score [OF o, of j u] by simp
  show "u \<noteq> t \<Longrightarrow> score_at scores' i u =
           (if possessive u then map_option (\<lambda>v. v - int (count_list s u)) (score_at scores i u)
            else score_at scores i u)"
    using e only_changes_score [OF o, of i u] by simp
  show "first t = ''tala'' \<Longrightarrow> score_at scores' i t = map_option (\<lambda>v. v - 1) (score_at scores i t)"
  proof -
    assume t: "first t = ''tala''"
    then have np: "\<not> possessive t" by (simp add: possessive_def cat_tol_def)
    from a t have "sc_add i t (- 1) scores = Inr s1" by simp
    from sc_add_Inr [OF this] obtain v where "score_at scores i t = Some v"
      "score_at s1 i t = Some (v - 1)" by auto
    with e np show ?thesis by simp
  qed
  show "first t \<noteq> ''tala'' \<Longrightarrow> score_at scores' i t =
           (if possessive t then map_option (\<lambda>v. v - int (count_list s t)) (score_at scores i t)
            else score_at scores i t)"
    using a e by simp
qed

lemma heuristic_only:
  assumes h: "heuristic cfg finals tok start i s u scores = Inr scores'" and nn: "\<not> numeral u"
  shows "only_changes ({(i, u)} \<union> before i) scores scores'"
proof -
  from h nn have "heur_adverb i u scores = Inr scores' \<or> heur_noun i u scores = Inr scores'
      \<or> heur_preposition (lower tok) i u scores = Inr scores'
      \<or> heur_verb cfg finals tok i s u scores = Inr scores'
      \<or> heur_proper_noun tok start i u scores = Inr scores'
      \<or> heur_literal i u scores = Inr scores'"
    by (auto simp: heuristic_def numeral_def split: if_splits)
  then show ?thesis
  proof (elim disjE, goal_cases)
    case 1
    show ?case by (rule only_changes_mono [OF heur_adverb_only [OF 1]]) simp
  next
    case 2
    show ?case by (rule only_changes_mono [OF heur_noun_only [OF 2]]) simp
  next
    case 3
    show ?case by (rule only_changes_mono [OF heur_preposition_only [OF 3]]) simp
  next
    case 4
    show ?case by (rule heur_verb_only [OF 4])
  next
    case 5
    show ?case by (rule only_changes_mono [OF heur_proper_noun_only [OF 5]]) simp
  next
    case 6
    show ?case by (rule only_changes_mono [OF heur_literal_only [OF 6]]) simp
  qed
qed

text \<open>What the step for \<open>u\<close> does to the score of another terminal of the same position.\<close>

lemma heuristic_other:
  assumes h: "heuristic cfg finals tok start i s u scores = Inr scores'" and ne: "u \<noteq> t"
  shows "score_at scores' i t =
           (if numeral u \<and> possessive t
            then map_option (\<lambda>v. v - int (count_list s t)) (score_at scores i t)
            else score_at scores i t)"
proof (cases "numeral u")
  case True
  then have cat: "first u \<noteq> ''ao''" "first u \<noteq> ''eo''" "first u \<noteq> ''no''" "first u \<noteq> ''fs''"
    "first u \<noteq> ''so''"
    by (auto simp: numeral_def cat_tol_def)
  from h True cat have "heur_numeral i s u scores = Inr scores'"
    by (simp add: heuristic_def numeral_def)
  from heur_numeral_effect(3) [OF this, of t] ne True show ?thesis by simp
next
  case False
  have nb: "(i, t) \<notin> before i" by (auto simp: before_def)
  have "only_changes ({(i, u)} \<union> before i) scores scores'"
    using h False by (rule heuristic_only)
  from only_changes_score [OF this, of i t] ne nb False show ?thesis by simp
qed

lemma heuristic_keys:
  assumes h: "heuristic cfg finals tok start i s u scores = Inr scores'"
  shows "keys_of scores' = keys_of scores"
proof (cases "numeral u")
  case True
  then have cat: "first u \<noteq> ''ao''" "first u \<noteq> ''eo''" "first u \<noteq> ''no''" "first u \<noteq> ''fs''"
    "first u \<noteq> ''so''"
    by (auto simp: numeral_def cat_tol_def)
  from h True cat have "heur_numeral i s u scores = Inr scores'"
    by (simp add: heuristic_def numeral_def)
  from heur_numeral_effect(1) [OF this] show ?thesis .
next
  case False
  have "only_changes ({(i, u)} \<union> before i) scores scores'"
    using h False by (rule heuristic_only)
  then show ?thesis by (rule only_changes_keys)
qed

lemma heuristics_loop_keys:
  "heuristics_loop cfg finals tok start i s ts scores = Inr scores' \<Longrightarrow>
     keys_of scores' = keys_of scores"
  by (induction ts arbitrary: scores) (auto simp: rbind_Inr dest: heuristic_keys)

text \<open>
  If every step changes the score of \<open>t\<close> at position \<open>i\<close> by \<open>D u\<close>, the loop changes it
  by the sum.
\<close>

lemma heuristics_loop_effect:
  assumes step: "\<And>u sc sc'. u \<in> set ts \<Longrightarrow> heuristic cfg finals tok start i s u sc = Inr sc' \<Longrightarrow>
            score_at sc' i t = map_option (\<lambda>v. v + D u) (score_at sc i t)"
    and loop: "heuristics_loop cfg finals tok start i s ts scores = Inr scores'"
  shows "score_at scores' i t = map_option (\<lambda>v. v + sum_list (map D ts)) (score_at scores i t)"
  using assms
proof (induction ts arbitrary: scores)
  case Nil
  then show ?case by (simp add: option.map_ident)
next
  case (Cons u ts)
  from Cons.prems(2) obtain s1 where
    a: "heuristic cfg finals tok start i s u scores = Inr s1"
    and r: "heuristics_loop cfg finals tok start i s ts s1 = Inr scores'"
    by (auto simp: rbind_Inr)
  have 1: "score_at s1 i t = map_option (\<lambda>v. v + D u) (score_at scores i t)"
    by (rule Cons.prems(1) [OF _ a]) simp
  have 2: "score_at scores' i t = map_option (\<lambda>v. v + sum_list (map D ts)) (score_at s1 i t)"
    by (rule Cons.IH [OF _ r]) (rule Cons.prems(1), simp_all)
  show ?case unfolding 2 1
    by (cases "score_at scores i t") (simp_all add: add.assoc)
qed

lemma sum_list_indicator:
  "distinct s \<Longrightarrow> t \<in> set s \<Longrightarrow> (\<Sum>u\<leftarrow>s. if u = t then (b::int) else 0) = b"
proof (induction s)
  case Nil
  then show ?case by simp
next
  case (Cons a s)
  show ?case
  proof (cases "a = t")
    case True
    with Cons.prems have "t \<notin> set s" by simp
    then have "(\<Sum>u\<leftarrow>s. if u = t then b else 0) = 0"
      by (induction s) auto
    with True show ?thesis by simp
  next
    case False
    with Cons show ?thesis by simp
  qed
qed

lemma sum_list_filter_count:
  "(\<Sum>u\<leftarrow>s. if P u then - 1 else (0::int)) = - int (length (filter P s))"
  by (induction s) auto

lemma count_list_distinct: "distinct s \<Longrightarrow> t \<in> set s \<Longrightarrow> count_list s t = 1"
  by (induction s) auto


lemma heur_noun_effect:
  assumes "heur_noun i t scores = Inr scores'" "first t = ''no''"
  shows "score_at scores' i t = map_option (\<lambda>v. v + noun_bonus t) (score_at scores i t)"
proof -
  consider "is_singular t" | "\<not> is_singular t" "is_abbrev t" | "\<not> is_singular t" "\<not> is_abbrev t"
    by blast
  then show ?thesis
  proof cases
    case 1
    with assms have "sc_add i t 1 scores = Inr scores'" by (simp add: heur_noun_def)
    from sc_add_Inr [OF this] 1 assms(2) show ?thesis by (auto simp: noun_bonus_def)
  next
    case 2
    with assms have "sc_add i t (- 1) scores = Inr scores'" by (simp add: heur_noun_def)
    from sc_add_Inr [OF this] 2 assms(2) show ?thesis by (auto simp: noun_bonus_def)
  next
    case 3
    with assms show ?thesis by (simp add: heur_noun_def noun_bonus_def option.map_ident)
  qed
qed


text \<open>
  C4, as amended. In the heuristics loop of a position with more than one candidate
  terminal, a terminal of category \<^verbatim>\<open>tala\<close> receives -1, and a noun or \<^verbatim>\<open>t\"ol\<close>
  terminal carrying the genitive variant receives from the numeral rule -1 for every
  terminal of a numeral category in the candidate set, that is -k for k such terminals
  (next to what the noun rule gives it).
\<close>

theorem numeral_heuristics:
  assumes d: "distinct s" and t: "t \<in> set s"
    and loop: "heuristics_loop cfg finals tok start i s s scores = Inr scores'"
    and v: "score_at scores i t = Some v"
  shows "(first t = ''tala'' \<longrightarrow> score_at scores' i t = Some (v - 1))
       \<and> ((first t = ''no'' \<or> first t = cat_tol) \<and> has_variant ''ef'' t \<longrightarrow>
            score_at scores' i t = Some (v + noun_bonus t - int (length (filter numeral s))))"
proof (intro conjI impI)
  assume c: "first t = ''tala''"
  then have np: "\<not> possessive t" by (simp add: possessive_def cat_tol_def)
  have own: "heuristic cfg finals tok start i s t sc = heur_numeral i s t sc" for sc
    using c by (simp add: heuristic_def)
  have step: "score_at sc' i t = map_option (\<lambda>v. v + (if u = t then - 1 else 0)) (score_at sc i t)"
    if "heuristic cfg finals tok start i s u sc = Inr sc'" for u sc sc'
  proof (cases "u = t")
    case True
    with that own have "heur_numeral i s t sc = Inr sc'" by simp
    from heur_numeral_effect(4) [OF this c] True show ?thesis by simp
  next
    case False
    from heuristic_other [OF that False] np False show ?thesis
      by (simp add: option.map_ident)
  qed
  from heuristics_loop_effect [where D = "\<lambda>u. if u = t then - 1 else 0", OF step loop]
  have "score_at scores' i t = map_option (\<lambda>v. v + - 1) (score_at scores i t)"
    by (simp add: sum_list_indicator [OF d t])
  with v show "score_at scores' i t = Some (v - 1)" by simp
next
  assume c: "(first t = ''no'' \<or> first t = cat_tol) \<and> has_variant ''ef'' t"
  then have p: "possessive t" by (simp add: possessive_def)
  have cnt: "count_list s t = 1" by (rule count_list_distinct [OF d t])
  have step: "score_at sc' i t
       = map_option (\<lambda>v. v + ((if u = t then noun_bonus t else 0) + (if numeral u then - 1 else 0)))
           (score_at sc i t)"
    if "heuristic cfg finals tok start i s u sc = Inr sc'" for u sc sc'
  proof (cases "u = t")
    case False
    from heuristic_other [OF that False] p cnt False show ?thesis
      by (cases "score_at sc i t") (simp_all)
  next
    case True
    show ?thesis
    proof (cases "first t = ''no''")
      case no: True
      then have nn: "\<not> numeral t" by (simp add: numeral_def cat_tol_def)
      from that True no have "heur_noun i t sc = Inr sc'" by (simp add: heuristic_def)
      from heur_noun_effect [OF this no] True nn show ?thesis by simp
    next
      case False
      with c have tol: "first t = cat_tol" by simp
      then have nt: "first t \<noteq> ''tala''" and nm: "numeral t" and nb: "noun_bonus t = 0"
        by (simp_all add: cat_tol_def numeral_def noun_bonus_def)
      from that True tol have "heur_numeral i s t sc = Inr sc'"
        by (simp add: heuristic_def cat_tol_def)
      from heur_numeral_effect(5) [OF this nt] p cnt True nm nb show ?thesis
        by (cases "score_at sc i t") simp_all
    qed
  qed
  from heuristics_loop_effect
    [where D = "\<lambda>u. (if u = t then noun_bonus t else 0) + (if numeral u then - 1 else 0)", OF step loop]
  have "score_at scores' i t
      = map_option (\<lambda>v. v + (noun_bonus t - int (length (filter numeral s)))) (score_at scores i t)"
    by (simp add: sum_list_addf sum_list_indicator [OF d t] sum_list_filter_count)
  with v show "score_at scores' i t = Some (v + noun_bonus t - int (length (filter numeral s)))"
    by simp
qed

lemma numeral_terminals_facts:
  "tala_terminal \<noteq> tol_terminal" "tala_terminal \<noteq> no_ef_terminal" "tol_terminal \<noteq> no_ef_terminal"
  "tol_terminal \<noteq> tala_terminal" "no_ef_terminal \<noteq> tala_terminal" "no_ef_terminal \<noteq> tol_terminal"
  "first tala_terminal = ''tala''" "first tol_terminal = cat_tol" "first no_ef_terminal = ''no''"
  "has_variant ''ef'' no_ef_terminal" "\<not> has_variant ''ef'' tala_terminal"
  "\<not> has_variant ''ef'' tol_terminal" "\<not> is_singular no_ef_terminal" "\<not> is_abbrev no_ef_terminal"
  by (simp_all add: tala_terminal_def tol_terminal_def no_ef_terminal_def example_terminal_def
      cat_tol_def has_variant_def)

lemma numeral_loop_value:
  "heuristics_loop example_config ((\<lambda>i. [])(0 := [tala_terminal, tol_terminal, no_ef_terminal]))
     known_token 0 0 [tala_terminal, tol_terminal, no_ef_terminal]
     [tala_terminal, tol_terminal, no_ef_terminal]
     [0 \<mapsto> [(tala_terminal, 0), (tol_terminal, 0), (no_ef_terminal, 0)]]
   = Inr [0 \<mapsto> [(tala_terminal, - 1), (tol_terminal, 0), (no_ef_terminal, - 2)]]"
  using numeral_terminals_facts
  by (simp add: heuristic_def heur_numeral_def heur_noun_def rbind_def sc_add_def cat_tol_def)

text \<open>
  C4 as stated fails: with the candidates \<^verbatim>\<open>tala\<close>, \<^verbatim>\<open>t\"ol\<close> and a genitive noun at one
  position, the genitive noun ends with -2, not -1.
\<close>

theorem numeral_penalty_counterexample:
  "calc_terminal_scores example_config numeral_forest
     = Inr [0 \<mapsto> [(tala_terminal, - 1), (tol_terminal, 0), (no_ef_terminal, - 2)]]"
proof -
  have f: "find_options numeral_forest (\<lambda>i. [], Map.empty)
            = ((\<lambda>i. [])(0 := [tala_terminal, tol_terminal, no_ef_terminal]), [0 \<mapsto> known_token])"
    using numeral_terminals_facts
    by (simp add: numeral_forest_def find_options_def OptionFinder_visit_token_def set_add_def)
  have se: "node_start numeral_forest = Inr 0" "node_end numeral_forest = Inr 1"
    by (simp_all add: node_start_def node_end_def numeral_forest_def)
  have c: "calc_position example_config ((\<lambda>i. [])(0 := [tala_terminal, tol_terminal, no_ef_terminal]))
             [0 \<mapsto> known_token] 0 0 Map.empty
           = Inr [0 \<mapsto> [(tala_terminal, - 1), (tol_terminal, 0), (no_ef_terminal, - 2)]]"
    using numeral_terminals_facts numeral_loop_value
    by (simp add: calc_position_def Let_def rbind_def example_config_def cat_tol_def)
  show ?thesis
    by (simp add: calc_terminal_scores_def f se rbind_def c)
qed

theorem numeral_heuristics_witness:
  "score_at [0 \<mapsto> [(tala_terminal, - 1), (tol_terminal, 0), (no_ef_terminal, - 2)]] 0 tala_terminal
     = Some (0 - 1)
   \<and> score_at [0 \<mapsto> [(tala_terminal, - 1), (tol_terminal, 0), (no_ef_terminal, - 2)]] 0 no_ef_terminal
     = Some (0 + noun_bonus no_ef_terminal
             - int (length (filter numeral [tala_terminal, tol_terminal, no_ef_terminal])))
   \<and> length (filter numeral [tala_terminal, tol_terminal, no_ef_terminal]) = 2"
proof -
  let ?s = "[tala_terminal, tol_terminal, no_ef_terminal]"
  have d: "distinct ?s" using numeral_terminals_facts by simp
  have v1: "score_at [0 \<mapsto> [(tala_terminal, 0), (tol_terminal, 0), (no_ef_terminal, 0)]] 0 tala_terminal = Some 0"
    by (simp add: score_at_def)
  have v2: "score_at [0 \<mapsto> [(tala_terminal, 0), (tol_terminal, 0), (no_ef_terminal, 0)]] 0 no_ef_terminal = Some 0"
    using numeral_terminals_facts by (simp add: score_at_def)
  have m1: "tala_terminal \<in> set ?s" and m2: "no_ef_terminal \<in> set ?s" by simp_all
  have n: "length (filter numeral ?s) = 2"
    using numeral_terminals_facts by (simp add: numeral_def cat_tol_def)
  from numeral_heuristics [OF d m1 numeral_loop_value v1]
    numeral_heuristics [OF d m2 numeral_loop_value v2] numeral_terminals_facts n
  show ?thesis by simp
qed



lemma keys_score_at:
  "keys_of scores j = Some ks \<Longrightarrow> (score_at scores j u \<noteq> None) = (u \<in> set ks)"
proof -
  assume "keys_of scores j = Some ks"
  then obtain z where z: "scores j = Some z" and ks: "ks = map fst z"
    by (auto simp: keys_of_def)
  have "(map_of z u \<noteq> None) = (u \<in> fst ` set z)"
    by (simp add: map_of_eq_None_iff)
  then show ?thesis
    by (simp add: score_at_def z ks)
qed



lemma token_terminals_simps:
  "token_terminals [] i = []"
  "token_terminals (xs @ ys) i = token_terminals xs i @ token_terminals ys i"
  "token_terminals [Epsilon] i = []"
  "token_terminals [Token s e t tok] i = (if s = i then [t] else [])"
  "token_terminals (Nonterminal n c s e fams # xs) i = token_terminals xs i"
  by (simp_all add: token_terminals_def)

lemma finder_adds_refl: "finder_adds [] ft ft"
  by (simp add: finder_adds_def token_terminals_simps)

lemma finder_adds_trans:
  "finder_adds xs ft ft1 \<Longrightarrow> finder_adds ys ft1 ft2 \<Longrightarrow> finder_adds (xs @ ys) ft ft2"
  by (auto simp: finder_adds_def token_terminals_simps)

lemma finder_adds_token:
  "finder_adds [Token s e t tok] ft (OptionFinder_visit_token s t tok ft)"
  by (cases ft) (auto simp: finder_adds_def OptionFinder_visit_token_def set_add_def token_terminals_simps)

lemma find_node_adds:
  "finder_adds (nodes_of w) ft (find_node w ft)"
  "finder_adds (nodes_of_children ws) ft (find_children ws ft)"
  "finder_adds (nodes_of_families fams) ft (find_families fams ft)"
proof (induction w ft and ws ft and fams ft rule: find_node_find_children_find_families.induct)
  case (1 ft)
  show ?case by (simp add: finder_adds_def token_terminals_simps)
next
  case (2 s e t tok ft)
  show ?case by (simp add: finder_adds_token)
next
  case (3 n c s e fams ft)
  then show ?case by (simp add: finder_adds_def token_terminals_simps)
next
  case (4 ft)
  show ?case by (simp add: finder_adds_refl)
next
  case (5 w ws ft)
  from finder_adds_trans [OF "5.IH"(1) "5.IH"(2)] show ?case by simp
next
  case (6 ft)
  show ?case by (simp add: finder_adds_refl)
next
  case (7 p ws fs ft)
  from finder_adds_trans [OF "7.IH"(1) "7.IH"(2)] show ?case by simp
qed

lemma find_options_finals:
  "set (fst (find_options w (\<lambda>i. [], Map.empty)) i) = set (token_terminals (nodes_of w) i)"
  "distinct (fst (find_options w (\<lambda>i. [], Map.empty)) i)"
  using find_node_adds(1) [of w "(\<lambda>i. [], Map.empty)"]
  by (simp_all add: finder_adds_def find_options_def)

lemma add_adjustments_keys:
  "add_adjustments i items scores = Inr scores' \<Longrightarrow> keys_of scores' = keys_of scores"
proof (induction items arbitrary: scores)
  case Nil
  then show ?case by simp
next
  case (Cons a items)
  obtain t d where a: "a = (t, d)" by (cases a)
  from Cons.prems obtain s1 where 1: "sc_add i t d scores = Inr s1"
    and 2: "add_adjustments i items s1 = Inr scores'"
    by (auto simp: a rbind_Inr)
  from sc_add_Inr [OF 1] Cons.IH [OF 2] show ?case by auto
qed

lemma apply_preferences_keys:
  assumes "apply_preferences prefs i s scores = Inr scores'"
  shows "keys_of scores' = keys_of scores"
proof -
  from assms obtain aw ab s1 where 1: "add_adjustments i aw scores = Inr s1"
    and 2: "add_adjustments i ab s1 = Inr scores'"
    by (auto simp: apply_preferences_def rbind_Inr)
  from add_adjustments_keys [OF 1] add_adjustments_keys [OF 2] show ?thesis by simp
qed

lemma calc_position_keys:
  assumes "calc_position cfg finals tokens start i scores = Inr scores'"
  shows "keys_of scores' = (keys_of scores)(i \<mapsto> finals i)"
proof -
  define scores0 where "scores0 = scores(i \<mapsto> map (\<lambda>t. (t, 0::int)) (finals i))"
  have k0: "keys_of scores0 = (keys_of scores)(i \<mapsto> finals i)"
    by (rule ext) (simp add: keys_of_def scores0_def comp_def)
  show ?thesis
  proof (cases "length (finals i) \<le> 1")
    case True
    with assms have "scores' = scores0"
      by (simp add: calc_position_def Let_def scores0_def)
    with k0 show ?thesis by simp
  next
    case False
    with assms obtain tok s1 where
      p: "s1 = scores0 \<or> (\<exists>ps. apply_preferences ps i (finals i) scores0 = Inr s1)"
      and h: "heuristics_loop cfg finals tok start i (finals i) (finals i) s1 = Inr scores'"
      by (auto simp: calc_position_def Let_def scores0_def [symmetric] rbind_Inr
          split: option.splits if_splits)
    from p have "keys_of s1 = keys_of scores0"
      by (auto dest: apply_preferences_keys)
    with heuristics_loop_keys [OF h] k0 show ?thesis by simp
  qed
qed

lemma calc_loop_keys:
  "calc_loop cfg finals tokens start positions scores = Inr scores' \<Longrightarrow>
     keys_of scores' j = (if j \<in> set positions then Some (finals j) else keys_of scores j)"
proof (induction positions arbitrary: scores)
  case Nil
  then show ?case by simp
next
  case (Cons i positions)
  from Cons.prems obtain s1 where 1: "calc_position cfg finals tokens start i scores = Inr s1"
    and 2: "calc_loop cfg finals tokens start positions s1 = Inr scores'"
    by (auto simp: rbind_Inr)
  from Cons.IH [OF 2] calc_position_keys [OF 1] show ?case by simp
qed

lemma calc_terminal_scores_keys:
  assumes "calc_terminal_scores cfg w = Inr scores" "node_start w = Inr a" "node_end w = Inr b"
  shows "keys_of scores j
           = (if a \<le> j \<and> j < b then Some (fst (find_options w (\<lambda>i. [], Map.empty)) j) else None)"
proof -
  obtain finals tokens where f: "find_options w (\<lambda>i. [], Map.empty) = (finals, tokens)"
    by (cases "find_options w (\<lambda>i. [], Map.empty)")
  from assms f have "calc_loop cfg finals tokens a [a..<b] Map.empty = Inr scores"
    by (simp add: calc_terminal_scores_def rbind_def)
  from calc_loop_keys [OF this, of j] f show ?thesis
    by (simp add: keys_of_def)
qed

lemma count_list_map_filter:
  "count_list (map f xs) y = length (filter (\<lambda>x. f x = y) xs)"
  by (induction xs) auto

lemma count_list_one: "distinct xs \<Longrightarrow> x \<in> set xs \<Longrightarrow> count_list xs x = 1"
  by (induction xs) auto

text \<open>
  C9 (candidates found and scored once). When the scorer returns, then for every position
  inside the forest's span and every terminal of a token node at that position, however
  many token nodes carry it, the terminal occurs exactly once in the candidate set the
  option finder collects for the position, and exactly one score entry of the position
  has it as key.
\<close>

theorem candidates_scored_once:
  assumes calc: "calc_terminal_scores cfg w = Inr scores"
    and span: "node_start w = Inr a" "node_end w = Inr b" "a \<le> i" "i < b"
    and t: "t \<in> set (token_terminals (nodes_of w) i)"
  shows "count_list (fst (find_options w (\<lambda>i. [], Map.empty)) i) t = 1
       \<and> (\<exists>sc. scores i = Some sc \<and> length (filter (\<lambda>entry. fst entry = t) sc) = 1)"
proof -
  define s where "s = fst (find_options w (\<lambda>i. [], Map.empty)) i"
  have ts: "t \<in> set s" and d: "distinct s"
    using t by (simp_all add: s_def find_options_finals)
  have c: "count_list s t = 1" by (rule count_list_one [OF d ts])
  from calc_terminal_scores_keys [OF calc span(1,2), of i] span(3,4)
  obtain sc where sc: "scores i = Some sc" and k: "map fst sc = s"
    by (auto simp: keys_of_def s_def)
  from c have "length (filter (\<lambda>entry. fst entry = t) sc) = 1"
    unfolding k [symmetric] count_list_map_filter .
  with c sc show ?thesis unfolding s_def by blast
qed

text \<open>
  C10 (token lookup). When the scorer has returned the score table for a forest whose
  token nodes all start inside the root's span, then for every token node of the forest
  the option finder has recorded the node's terminal at the node's start position, and
  the reducer's lookup of the score at that position and terminal succeeds.
\<close>

theorem token_lookup_succeeds:
  assumes calc: "calc_terminal_scores cfg w = Inr scores"
    and span: "node_start w = Inr a" "node_end w = Inr b"
    and wf: "within_span a b (nodes_of w)"
    and n: "Token s e t tok \<in> set (nodes_of w)"
  shows "t \<in> set (fst (find_options w (\<lambda>i. [], Map.empty)) s)
       \<and> (\<exists>v. visit_token scores s t = Inr v)"
proof -
  from n have "t \<in> set (token_terminals (nodes_of w) s)"
    by (force simp: token_terminals_def)
  then have ts: "t \<in> set (fst (find_options w (\<lambda>i. [], Map.empty)) s)"
    by (simp add: find_options_finals)
  from wf n have "a \<le> s \<and> s < b"
    by (auto simp: within_span_def list_all_iff)
  with calc_terminal_scores_keys [OF calc span, of s]
  have "keys_of scores s = Some (fst (find_options w (\<lambda>i. [], Map.empty)) s)" by simp
  from keys_score_at [OF this, of t] ts obtain v where "score_at scores s t = Some v"
    by auto
  then have "visit_token scores s t = Inr v"
    by (simp add: visit_token_score_at)
  with ts show ?thesis by blast
qed

lemma shared_forest_scores:
  "calc_terminal_scores example_config shared_forest
     = Inr [0 \<mapsto> [(tala_terminal, - 1), (no_ef_terminal, - 1)]]"
proof -
  have f: "find_options shared_forest (\<lambda>i. [], Map.empty)
            = ((\<lambda>i. [])(0 := [tala_terminal, no_ef_terminal]), [0 \<mapsto> known_token])"
    using numeral_terminals_facts
    by (simp add: shared_forest_def find_options_def OptionFinder_visit_token_def set_add_def)
  have se: "node_start shared_forest = Inr 0" "node_end shared_forest = Inr 1"
    by (simp_all add: node_start_def node_end_def shared_forest_def)
  have c: "calc_position example_config ((\<lambda>i. [])(0 := [tala_terminal, no_ef_terminal]))
             [0 \<mapsto> known_token] 0 0 Map.empty
           = Inr [0 \<mapsto> [(tala_terminal, - 1), (no_ef_terminal, - 1)]]"
    using numeral_terminals_facts
    by (simp add: calc_position_def Let_def rbind_def example_config_def cat_tol_def
        heuristic_def heur_numeral_def heur_noun_def sc_add_def)
  show ?thesis
    by (simp add: calc_terminal_scores_def f se rbind_def c)
qed

lemma shared_forest_facts:
  "node_start shared_forest = Inr 0" "node_end shared_forest = Inr 1"
  "Token 0 1 tala_terminal known_token \<in> set (nodes_of shared_forest)"
  "tala_terminal \<in> set (token_terminals (nodes_of shared_forest) 0)"
  "within_span 0 1 (nodes_of shared_forest)"
  "count_list (token_terminals (nodes_of shared_forest) 0) tala_terminal = 2"
  using numeral_terminals_facts
  by (simp_all add: node_start_def node_end_def shared_forest_def token_terminals_def within_span_def)

theorem candidates_scored_once_witness:
  "count_list (token_terminals (nodes_of shared_forest) 0) tala_terminal = 2
   \<and> count_list (fst (find_options shared_forest (\<lambda>i. [], Map.empty)) 0) tala_terminal = 1
   \<and> (\<exists>sc. [0 \<mapsto> [(tala_terminal, - 1), (no_ef_terminal, - 1)]] 0 = Some sc
         \<and> length (filter (\<lambda>entry. fst entry = tala_terminal) sc) = 1)"
  using candidates_scored_once [OF shared_forest_scores shared_forest_facts(1,2) _ _ shared_forest_facts(4)]
    shared_forest_facts(6) numeral_terminals_facts
  by simp

theorem token_lookup_succeeds_witness:
  "tala_terminal \<in> set (fst (find_options shared_forest (\<lambda>i. [], Map.empty)) 0)
   \<and> (\<exists>v. visit_token [0 \<mapsto> [(tala_terminal, - 1), (no_ef_terminal, - 1)]] 0 tala_terminal = Inr v)"
  by (rule token_lookup_succeeds [OF shared_forest_scores shared_forest_facts(1,2,5,3)])




end
